theory Spec2Isabelle
  imports Complex_Main
begin

section \<open>Data model\<close>

text \<open>
  The sampler of \<^verbatim>\<open>src/torchns/ns.py\<close> works on torch tensors of floating-point numbers.
  The embedding idealises a float as a \<^typ>\<open>real\<close> (exact arithmetic, no rounding), a
  one-dimensional tensor as a list and a two-dimensional tensor of shape \<open>(M, D)\<close> as a list
  of \<open>M\<close> rows of length \<open>D\<close>. The two infinities that the source uses as default
  thresholds and initial values are kept apart from the finite numbers.
\<close>

type_synonym vec = "real list"
type_synonym mat = "real list list"

datatype xreal = NegInf | Finite real | PosInf

text \<open>\<open>xless a b\<close> is the floating-point comparison \<open>a < b\<close> on possibly infinite values.\<close>

fun xless :: "xreal \<Rightarrow> xreal \<Rightarrow> bool" where
  "xless PosInf _ = False"
| "xless _ NegInf = False"
| "xless NegInf _ = True"
| "xless (Finite a) (Finite b) = (a < b)"
| "xless (Finite a) PosInf = True"

text \<open>
  Every exception the modelled code can raise is a value. \<open>RuntimeError\<close> carries the
  library call that raised it.
\<close>

datatype cause =
    EmptyReduction      \<comment> \<open>\<open>max()\<close>/\<open>min()\<close> of a tensor without elements\<close>
  | EmptyTensorList     \<comment> \<open>\<open>torch.cat\<close>/\<open>torch.stack\<close> of an empty list\<close>
  | NotAMatrix          \<comment> \<open>\<open>torch.linalg.cholesky\<close> of a tensor with fewer than two dimensions\<close>
  | InvalidSampleCount  \<comment> \<open>\<open>torch.multinomial\<close> asked for no sample\<close>

datatype error =
    KeyError
  | AssertionError
  | AttributeError
  | IndexError
  | ZeroDivisionError
  | LinAlgError
  | RuntimeError cause

subsection \<open>Reductions of one-dimensional tensors\<close>

text \<open>\<open>t.min()\<close> and \<open>t.max()\<close> raise on a tensor without elements.\<close>

fun tensor_min :: "real list \<Rightarrow> error + real" where
  "tensor_min [] = Inl (RuntimeError EmptyReduction)"
| "tensor_min (x # xs) = Inr (fold min xs x)"

fun tensor_max :: "real list \<Rightarrow> error + real" where
  "tensor_max [] = Inl (RuntimeError EmptyReduction)"
| "tensor_max (x # xs) = Inr (fold max xs x)"

text \<open>
  \<open>np.argmin\<close> returns the index of the first occurrence of the minimum. It is only
  called where \<open>L_live.min()\<close> has already succeeded.
\<close>

definition argmin :: "real list \<Rightarrow> nat" where
  "argmin xs = (case xs of [] \<Rightarrow> 0
      | y # ys \<Rightarrow> length (takeWhile (\<lambda>x. x \<noteq> fold min ys y) xs))"

text \<open>
  \<open>torch.argmax(accept_matrix.int(), dim=1)\<close> on one row: the index of the first maximal
  entry, where \<open>True\<close> counts 1 and \<open>False\<close> counts 0.
\<close>

definition bool_int :: "bool \<Rightarrow> int" where
  "bool_int b = (if b then 1 else 0)"

definition argmax :: "int list \<Rightarrow> nat" where
  "argmax xs = (case xs of [] \<Rightarrow> 0
      | y # ys \<Rightarrow> length (takeWhile (\<lambda>x. x \<noteq> fold max ys y) xs))"

subsection \<open>Vectors and matrices\<close>

definition dot :: "vec \<Rightarrow> vec \<Rightarrow> real" where
  "dot x y = sum_list (map2 (*) x y)"

definition vadd :: "vec \<Rightarrow> vec \<Rightarrow> vec" where
  "vadd x y = map2 (+) x y"

definition smul :: "vec \<Rightarrow> real \<Rightarrow> vec" where
  "smul x c = map (\<lambda>a. a * c) x"

text \<open>\<open>matmul_T v L\<close> is the row vector \<open>v\<close> times the transpose of \<open>L\<close>.\<close>

definition matmul_T :: "vec \<Rightarrow> mat \<Rightarrow> vec" where
  "matmul_T v L = map (dot v) L"


section \<open>The sampler object\<close>

text \<open>
  \<open>self\<close> of \<^verbatim>\<open>NestedSampler\<close>. \<open>ndim\<close> is \<open>X_init.shape[1]\<close>, which a list of rows
  does not carry when there is no row. The four \<open>samples_*\<close> attributes do not exist
  before \<open>nested_sampling\<close> has returned; an attribute that does not exist is \<open>None\<close>.
\<close>

record sampler =
  X_init :: mat
  X_live :: mat
  L_live :: "real list option"
  ndim :: nat
  inbound :: "vec \<Rightarrow> bool"
  samples_X :: "mat option"
  samples_logv :: "real list option"
  samples_logl :: "real list option"
  samples_logwt :: "real list option"

datatype bound = Unitcube | Callable "vec \<Rightarrow> bool" | Unknown

text \<open>\<open>_inbound_unitcube\<close>, on one row of the batch.\<close>

definition inbound_unitcube :: "vec \<Rightarrow> bool" where
  "inbound_unitcube x = (list_all (\<lambda>c. c \<le> 1) x \<and> list_all (\<lambda>c. 0 \<le> c) x)"

definition NestedSampler_init :: "nat \<Rightarrow> mat \<Rightarrow> real list option \<Rightarrow> bound \<Rightarrow> error + sampler" where
  "NestedSampler_init D X L b =
     (case (case b of Unitcube \<Rightarrow> Inr inbound_unitcube
                    | Callable f \<Rightarrow> Inr f
                    | Unknown \<Rightarrow> Inl KeyError) of
        Inl e \<Rightarrow> Inl e
      | Inr f \<Rightarrow>
          if list_all f X
          then Inr \<lparr>X_init = X, X_live = X, L_live = L, ndim = D, inbound = f,
                    samples_X = None, samples_logv = None, samples_logl = None,
                    samples_logwt = None\<rparr>
          else Inl AssertionError)"

definition attr :: "'a option \<Rightarrow> error + 'a" where
  "attr a = (case a of None \<Rightarrow> Inl AttributeError | Some v \<Rightarrow> Inr v)"

section \<open>CovarianceWhitener: \<open>_calc_Lchol\<close>\<close>

definition column :: "mat \<Rightarrow> nat \<Rightarrow> vec" where
  "column X j = map (\<lambda>row. row ! j) X"

text \<open>
  \<open>torch.cov(X.T)\<close> for \<open>M \<ge> 2\<close> observations (the rows of \<open>X\<close>) of \<open>D\<close> variables:
  the unbiased sample covariance, divided by \<open>M - 1\<close>.
\<close>

definition torch_cov :: "nat \<Rightarrow> mat \<Rightarrow> mat" where
  "torch_cov D X =
     (let M = length X;
          centred = map (\<lambda>j. let c = column X j; mu = sum_list c / real M
                              in map (\<lambda>x. x - mu) c) [0..<D]
      in map (\<lambda>ci. map (\<lambda>cj. dot ci cj / (real M - 1)) centred) centred)"

text \<open>
  \<open>torch.linalg.cholesky\<close> of a square matrix, of which it reads the lower triangle:
  the factorisation column by column, each step taking the square root of the pivot,
  scaling the column below it and updating the trailing block. It fails (\<open>None\<close>,
  the library's \<open>LinAlgError\<close>) at the first pivot that is not positive.
\<close>

function cholesky :: "mat \<Rightarrow> mat option" where
  "cholesky [] = Some []"
| "cholesky (r # rows) =
     (let a = hd r in
      if a \<le> 0 then None
      else
        let d = sqrt a;
            col = map (\<lambda>row. hd row / d) rows;
            S = map2 (\<lambda>row c. map2 (\<lambda>x c'. x - c * c') (tl row) col) rows col
        in case cholesky S of
             None \<Rightarrow> None
           | Some L \<Rightarrow> Some ((d # replicate (length rows) 0) # map2 (#) col L))"
  by pat_completeness auto
termination
  by (relation "measure length") auto

text \<open>\<open>cov - 2 * mineig * torch.eye(len(cov))\<close>.\<close>

definition shift_diag :: "mat \<Rightarrow> real \<Rightarrow> mat" where
  "shift_diag cov mineig =
     map (\<lambda>i. map (\<lambda>j. cov ! i ! j - 2 * mineig * (if i = j then 1 else 0))
                [0..<length cov]) [0..<length cov]"

text \<open>
  Lines 241 to 248 of the source: the factorisation, and on its failure the shift by
  twice the smallest eigenvalue and one retry, whose failure is not caught.
  \<open>torch.linalg.eigvalsh\<close> is a library routine without a closed form; it is a
  parameter of the model.
\<close>

definition chol_repair :: "(mat \<Rightarrow> real list) \<Rightarrow> mat \<Rightarrow> error + mat" where
  "chol_repair eigvalsh cov =
     (case cholesky cov of
        Some L \<Rightarrow> Inr L
      | None \<Rightarrow>
          (case tensor_min (eigvalsh cov) of
             Inl e \<Rightarrow> Inl e
           | Inr mineig \<Rightarrow>
               (case cholesky (shift_diag cov mineig) of
                  Some L \<Rightarrow> Inr L
                | None \<Rightarrow> Inl LinAlgError)))"

text \<open>
  \<open>_calc_Lchol(X)\<close> for \<open>X\<close> of shape \<open>(M, D)\<close>. \<open>torch.cov\<close> squeezes its result, so for
  one variable the covariance is a scalar tensor, which \<open>torch.linalg.cholesky\<close>
  rejects. For fewer than two observations every entry of the covariance is the
  float \<open>nan\<close>, on which both factorisation attempts fail.
\<close>

definition calc_Lchol :: "(mat \<Rightarrow> real list) \<Rightarrow> nat \<Rightarrow> mat \<Rightarrow> error + mat" where
  "calc_Lchol eigvalsh D X =
     (if D = 0 then Inr []
      else if D = 1 then Inl (RuntimeError NotAMatrix)
      else if length X < 2 then Inl LinAlgError
      else chol_repair eigvalsh (torch_cov D X))"


section \<open>ProposalKernel: \<open>_gen_new_samples\<close>\<close>

text \<open>
  The random numbers are inputs of the model. \<open>t b d\<close> is entry \<open>(b, d)\<close> of the tensor
  that \<open>torch.randn(B, D)\<close> returns, and \<open>u i b\<close> is entry \<open>b\<close> of the tensor that the
  \<open>i\<close>-th call of \<open>torch.rand(B)\<close> returns.
\<close>

definition get_directions :: "nat \<Rightarrow> nat \<Rightarrow> (nat \<Rightarrow> nat \<Rightarrow> real) \<Rightarrow> mat" where
  "get_directions B D t =
     map (\<lambda>b. let row = map (t b) [0..<D];
                   l = sqrt (sum_list (map (\<lambda>x. x\<^sup>2) row))
               in map (\<lambda>x. x / l) row) [0..<B]"

text \<open>
  The loop of \<open>_get_slice_sample_points\<close> over \<open>i\<close>: \<open>bounds\<close> is \<open>current_bounds\<close>, one
  pair per chain, and \<open>L\<close> holds the columns filled so far.
\<close>

fun slice_loop :: "(nat \<Rightarrow> nat \<Rightarrow> real) \<Rightarrow> nat list \<Rightarrow> (real \<times> real) list \<Rightarrow> mat \<Rightarrow> mat" where
  "slice_loop u [] bounds L = L"
| "slice_loop u (i # js) bounds L =
     (let x = map (\<lambda>(b, (lo, hi)). u i b * (hi - lo) + lo) (enumerate 0 bounds);
          bounds' = map2 (\<lambda>xb (lo, hi). (if xb < 0 then xb else lo, if xb > 0 then xb else hi))
                      x bounds
      in slice_loop u js bounds' (map2 (\<lambda>row xb. row @ [xb]) L x))"

definition get_slice_sample_points :: "nat \<Rightarrow> nat \<Rightarrow> (nat \<Rightarrow> nat \<Rightarrow> real) \<Rightarrow> mat" where
  "get_slice_sample_points B S u = slice_loop u [0..<S] (replicate B (- 1, 1)) (replicate B [])"

text \<open>
  The working state of the chains: the positions \<open>X\<close>, the log-likelihoods \<open>logl\<close> and
  the counters \<open>C\<close>. \<open>logl\<close> starts at \<open>-inf\<close>, which is \<open>None\<close> here; the oracle
  \<open>logl_fn\<close> returns finite numbers and is applied to each row of its batch.
\<close>

record chains =
  ch_X :: mat
  ch_logl :: "real option list"
  ch_C :: "nat list"

text \<open>\<open>pX\<close>, of shape \<open>(B, S, D)\<close>: line 74 to line 76.\<close>

definition proposals :: "mat \<Rightarrow> mat \<Rightarrow> mat \<Rightarrow> mat \<Rightarrow> mat list" where
  "proposals X N L Lchol =
     map (\<lambda>(x, n, ls). map (\<lambda>l. vadd x (matmul_T (smul n l) Lchol)) ls) (zip X (zip N L))"

text \<open>\<open>accept_matrix\<close>, line 81.\<close>

definition accept_matrix :: "xreal \<Rightarrow> real list list \<Rightarrow> bool list list \<Rightarrow> bool list list" where
  "accept_matrix logl_th logl_prop inb =
     map2 (map2 (\<lambda>l ib. xless logl_th (Finite l) \<and> ib)) logl_prop inb"

text \<open>
  One pass of the loop over \<open>num_steps\<close>, line 72 to line 88. \<open>torch.argmax\<close> raises
  when the reduced axis has no entry (\<open>samples_per_slice = 0\<close>), \<open>torch.stack\<close> when
  there is no chain.
\<close>

definition slice_step ::
  "(vec \<Rightarrow> bool) \<Rightarrow> (vec \<Rightarrow> real) \<Rightarrow> xreal \<Rightarrow> real \<Rightarrow> nat \<Rightarrow> mat \<Rightarrow> nat \<Rightarrow> nat \<Rightarrow>
   (nat \<Rightarrow> nat \<Rightarrow> real) \<Rightarrow> (nat \<Rightarrow> nat \<Rightarrow> real) \<Rightarrow> chains \<Rightarrow> error + chains" where
  "slice_step inb logl_fn logl_th max_step_size S Lchol B D t u st =
     (let N = get_directions B D t;
          L = map (map (\<lambda>x. x * max_step_size)) (get_slice_sample_points B S u);
          pX = proposals (ch_X st) N L Lchol;
          logl_prop = map (map logl_fn) pX;
          inbnd = map (map inb) pX;
          acc = accept_matrix logl_th logl_prop inbnd
      in if S = 0 then Inl IndexError
         else if B = 0 then Inl (RuntimeError EmptyTensorList)
         else
           let idx = map (\<lambda>row. argmax (map bool_int row)) acc;
               nX = map (\<lambda>i. pX ! i ! (idx ! i)) [0..<B];
               logl_selected = map (\<lambda>i. logl_prop ! i ! (idx ! i)) [0..<B];
               accept_any = map (\<lambda>row. sum_list (map bool_int row) > 0) acc
           in Inr \<lparr>ch_X = map (\<lambda>i. if accept_any ! i then nX ! i else ch_X st ! i) [0..<B],
                   ch_logl = map (\<lambda>i. if accept_any ! i then Some (logl_selected ! i)
                                        else ch_logl st ! i) [0..<B],
                   ch_C = map (\<lambda>i. if accept_any ! i then ch_C st ! i + 1
                                     else ch_C st ! i) [0..<B]\<rparr>)"

fun steps_loop :: "(nat \<Rightarrow> chains \<Rightarrow> error + chains) \<Rightarrow> nat list \<Rightarrow> chains \<Rightarrow> error + chains" where
  "steps_loop step [] st = Inr st"
| "steps_loop step (i # js) st =
     (case step i st of Inl e \<Rightarrow> Inl e | Inr st' \<Rightarrow> steps_loop step js st')"

text \<open>Lines 65 and 66: the whitening factor that the kernel works with.\<close>

definition used_Lchol :: "(mat \<Rightarrow> real list) \<Rightarrow> nat \<Rightarrow> mat \<Rightarrow> mat option \<Rightarrow> error + mat" where
  "used_Lchol eigvalsh D X_seeds Lchol =
     (case Lchol of None \<Rightarrow> calc_Lchol eigvalsh D X_seeds | Some L \<Rightarrow> Inr L)"

text \<open>
  \<open>_gen_new_samples\<close>. \<open>randn i\<close> and \<open>rand i\<close> are the random draws of step \<open>i\<close>. The
  result keeps the chains whose counter equals \<open>num_steps\<close>.
\<close>

definition gen_new_samples ::
  "(mat \<Rightarrow> real list) \<Rightarrow> sampler \<Rightarrow> mat \<Rightarrow> (vec \<Rightarrow> real) \<Rightarrow> xreal \<Rightarrow> nat \<Rightarrow> real \<Rightarrow> nat \<Rightarrow>
   mat option \<Rightarrow> (nat \<Rightarrow> nat \<Rightarrow> nat \<Rightarrow> real) \<Rightarrow> (nat \<Rightarrow> nat \<Rightarrow> nat \<Rightarrow> real) \<Rightarrow>
   error + mat \<times> real option list" where
  "gen_new_samples eigvalsh self X_seeds logl_fn logl_th num_steps max_step_size
       samples_per_slice Lchol randn rand =
     (case used_Lchol eigvalsh (ndim self) X_seeds Lchol of
        Inl e \<Rightarrow> Inl e
      | Inr Lc \<Rightarrow>
          let B = length X_seeds;
              D = ndim self;
              st0 = \<lparr>ch_X = X_seeds, ch_logl = replicate B None, ch_C = replicate B 0\<rparr>
          in case steps_loop
                    (\<lambda>i. slice_step (inbound self) logl_fn logl_th max_step_size
                            samples_per_slice Lc B D (randn i) (rand i))
                    [0..<num_steps] st0 of
               Inl e \<Rightarrow> Inl e
             | Inr st \<Rightarrow>
                 Inr (map fst (filter (\<lambda>(x, c). c = num_steps) (zip (ch_X st) (ch_C st))),
                      map fst (filter (\<lambda>(l, c). c = num_steps) (zip (ch_logl st) (ch_C st)))))"

section \<open>NestedSamplingDriver: \<open>nested_sampling\<close>\<close>

text \<open>The local variables of \<open>nested_sampling\<close> that the loop changes.\<close>

record locals =
  loc_X_live :: mat
  loc_L_live :: "real list"
  loc_V :: real
  loc_samples_X :: mat
  loc_samples_logl :: "real list"
  loc_samples_logv :: "real list"
  loc_samples_Z :: "real list"
  loc_samples_logwt :: "real list"
  loc_logl_th :: xreal
  loc_Z :: real
  loc_Z_rest :: xreal

text \<open>
  Lines 147 to 159: the body of the \<open>if\<close> for the candidate \<open>(x_new, l_new)\<close>.
  \<open>np.log\<close> is \<open>ln\<close>: its arguments \<open>V\<close> and \<open>V / NLP\<close> are positive whenever the
  population has two points or more (\<open>volume_positive\<close> below), which \<open>_calc_Lchol\<close>
  enforces for every dimension but zero.
\<close>

definition replace_min :: "nat \<Rightarrow> vec \<Rightarrow> real \<Rightarrow> locals \<Rightarrow> error + locals" where
  "replace_min NLP x_new l_new s =
     (let idx_min = argmin (loc_L_live s);
          Lmin = loc_L_live s ! idx_min
      in if \<not> idx_min < length (loc_X_live s) then Inl IndexError
         else if NLP = 0 then Inl ZeroDivisionError
         else
           let L' = (loc_L_live s)[idx_min := l_new];
               X' = (loc_X_live s)[idx_min := x_new];
               V' = loc_V s * (1 - 1 / real NLP);
               dZ = V' / real NLP * exp Lmin
           in case tensor_max L' of
                Inl e \<Rightarrow> Inl e
              | Inr Lmax \<Rightarrow>
                  Inr (s\<lparr>loc_samples_X := loc_samples_X s @ [loc_X_live s ! idx_min],
                         loc_samples_logl := loc_samples_logl s @ [Lmin],
                         loc_samples_logv := loc_samples_logv s @ [ln (loc_V s)],
                         loc_L_live := L',
                         loc_X_live := X',
                         loc_V := V',
                         loc_samples_Z := loc_samples_Z s @ [dZ],
                         loc_samples_logwt := loc_samples_logwt s @ [Lmin + ln (V' / real NLP)],
                         loc_Z := loc_Z s + dZ,
                         loc_Z_rest := Finite (V' * exp Lmax)\<rparr>))"

text \<open>
  Lines 145 to 161: the loop over the candidates \<open>(X_new[i], L_new[i])\<close>, which have
  the same number of entries. A candidate at \<open>-inf\<close> exceeds nothing.
\<close>

fun process_candidates :: "nat \<Rightarrow> (vec \<times> real option) list \<Rightarrow> locals \<Rightarrow> error + locals" where
  "process_candidates NLP [] s = Inr s"
| "process_candidates NLP ((x, l) # cs) s =
     (case tensor_min (loc_L_live s) of
        Inl e \<Rightarrow> Inl e
      | Inr m \<Rightarrow>
          (case l of
             None \<Rightarrow> Inr s
           | Some v \<Rightarrow>
               if v > m
               then (case replace_min NLP x v s of
                       Inl e \<Rightarrow> Inl e
                     | Inr s' \<Rightarrow> process_candidates NLP cs s')
               else Inr s))"

text \<open>
  The random inputs of a run: \<open>choice i j\<close> is entry \<open>j\<close> of \<open>idx_batch\<close> in iteration
  \<open>i\<close> (an index below \<open>NLP\<close>), \<open>randn i\<close> and \<open>rand i\<close> feed the kernel of iteration \<open>i\<close>.
\<close>

record rng =
  rng_choice :: "nat \<Rightarrow> nat \<Rightarrow> nat"
  rng_randn :: "nat \<Rightarrow> nat \<Rightarrow> nat \<Rightarrow> nat \<Rightarrow> real"
  rng_rand :: "nat \<Rightarrow> nat \<Rightarrow> nat \<Rightarrow> nat \<Rightarrow> real"

record config =
  cfg_logl_th_max :: xreal
  cfg_max_steps :: nat
  cfg_num_batch_samples :: nat
  cfg_epsilon :: real
  cfg_max_step_size :: real
  cfg_samples_per_slice :: nat
  cfg_num_steps :: nat

text \<open>
  One pass of the loop of line 122. The flag of the result says whether the pass left
  the loop by one of its two \<open>break\<close>s.
\<close>

definition ns_iteration ::
  "(mat \<Rightarrow> real list) \<Rightarrow> rng \<Rightarrow> sampler \<Rightarrow> (vec \<Rightarrow> real) \<Rightarrow> config \<Rightarrow> nat \<Rightarrow> nat \<Rightarrow>
   nat \<Rightarrow> locals \<Rightarrow> error + bool \<times> locals" where
  "ns_iteration eigvalsh g self logl_fn cfg NLP B i s =
     (let X_batch = map (\<lambda>j. loc_X_live s ! rng_choice g i j) [0..<B]
      in case tensor_min (loc_L_live s) of
           Inl e \<Rightarrow> Inl e
         | Inr th \<Rightarrow>
             let s1 = s\<lparr>loc_logl_th := Finite th\<rparr>
             in if xless (cfg_logl_th_max cfg) (Finite th) then Inr (True, s1)
                else
                  (case calc_Lchol eigvalsh (ndim self) (loc_X_live s1) of
                     Inl e \<Rightarrow> Inl e
                   | Inr Lchol \<Rightarrow>
                       (case gen_new_samples eigvalsh self X_batch logl_fn (Finite th)
                               (cfg_num_steps cfg) (cfg_max_step_size cfg) (cfg_samples_per_slice cfg)
                               (Some Lchol) (rng_randn g i) (rng_rand g i) of
                          Inl e \<Rightarrow> Inl e
                        | Inr (X_new, L_new) \<Rightarrow>
                            (case process_candidates NLP (zip X_new L_new) s1 of
                               Inl e \<Rightarrow> Inl e
                             | Inr s2 \<Rightarrow>
                                 Inr (xless (loc_Z_rest s2) (Finite (loc_Z s2 * cfg_epsilon cfg)),
                                      s2)))))"

text \<open>The loop of line 122 with \<open>n\<close> passes left, the next one being pass \<open>i\<close>.\<close>

fun ns_loop :: "(nat \<Rightarrow> locals \<Rightarrow> error + bool \<times> locals) \<Rightarrow> nat \<Rightarrow> nat \<Rightarrow> locals \<Rightarrow> error + locals" where
  "ns_loop step 0 i s = Inr s"
| "ns_loop step (Suc n) i s =
     (case step i s of
        Inl e \<Rightarrow> Inl e
      | Inr (stop, s') \<Rightarrow> if stop then Inr s' else ns_loop step n (Suc i) s')"

definition init_locals :: "sampler \<Rightarrow> (vec \<Rightarrow> real) \<Rightarrow> locals" where
  "init_locals self logl_fn =
     \<lparr>loc_X_live = X_live self,
      loc_L_live = (case L_live self of None \<Rightarrow> map logl_fn (X_live self) | Some L \<Rightarrow> L),
      loc_V = 1,
      loc_samples_X = [], loc_samples_logl = [], loc_samples_logv = [],
      loc_samples_Z = [], loc_samples_logwt = [],
      loc_logl_th = NegInf, loc_Z = 0, loc_Z_rest = PosInf\<rparr>"

text \<open>
  \<open>nested_sampling\<close>. An exception leaves the method before it stores anything in
  \<open>self\<close>, so the result is either the error or the sampler with the archive stored.
\<close>

definition nested_sampling ::
  "(mat \<Rightarrow> real list) \<Rightarrow> rng \<Rightarrow> sampler \<Rightarrow> (vec \<Rightarrow> real) \<Rightarrow> config \<Rightarrow> error + sampler" where
  "nested_sampling eigvalsh g self logl_fn cfg =
     (let NLP = length (X_live self);
          B = min (cfg_num_batch_samples cfg) NLP
      in case ns_loop (ns_iteration eigvalsh g self logl_fn cfg NLP B) (cfg_max_steps cfg) 0
                (init_locals self logl_fn) of
           Inl e \<Rightarrow> Inl e
         | Inr s \<Rightarrow>
             Inr (self\<lparr>X_live := loc_X_live s,
                       L_live := Some (loc_L_live s),
                       samples_X := Some (loc_samples_X s),
                       samples_logv := Some (loc_samples_logv s),
                       samples_logl := Some (loc_samples_logl s),
                       samples_logwt := Some (loc_samples_logwt s)\<rparr>))"


section \<open>PosteriorResampler\<close>

text \<open>
  \<open>torch.multinomial(wt, N, replacement=True)\<close> draws \<open>N\<close> indices into \<open>wt\<close> at random and
  raises when \<open>N\<close> is not positive. The draw itself is the parameter \<open>draw\<close> of the model.
\<close>

definition multinomial :: "(real list \<Rightarrow> nat \<Rightarrow> nat list) \<Rightarrow> real list \<Rightarrow> int \<Rightarrow> error + nat list" where
  "multinomial draw wt N =
     (if N \<le> 0 then Inl (RuntimeError InvalidSampleCount) else Inr (draw wt (nat N)))"

definition get_posterior_neff :: "sampler \<Rightarrow> error + real" where
  "get_posterior_neff self =
     (case attr (samples_logwt self) of
        Inl e \<Rightarrow> Inl e
      | Inr logwt \<Rightarrow>
          (case tensor_max logwt of
             Inl e \<Rightarrow> Inl e
           | Inr m \<Rightarrow>
               let wt0 = map (\<lambda>l. exp (l - m)) logwt;
                   wt = map (\<lambda>w. w / sum_list wt0) wt0
               in Inr ((sum_list wt)\<^sup>2 / sum_list (map (\<lambda>w. w\<^sup>2) wt))))"

definition get_posterior_samples ::
  "(real list \<Rightarrow> nat \<Rightarrow> nat list) \<Rightarrow> sampler \<Rightarrow> int option \<Rightarrow> error + mat \<times> real list" where
  "get_posterior_samples draw self N =
     (case (case N of None \<Rightarrow> (case get_posterior_neff self of
                                   Inl e \<Rightarrow> Inl e
                                 | Inr n_eff \<Rightarrow> Inr \<lfloor>n_eff\<rfloor>)
                    | Some n \<Rightarrow> Inr n) of
        Inl e \<Rightarrow> Inl e
      | Inr n \<Rightarrow>
          (case attr (samples_logwt self) of
             Inl e \<Rightarrow> Inl e
           | Inr logwt \<Rightarrow>
               (case tensor_max logwt of
                  Inl e \<Rightarrow> Inl e
                | Inr m \<Rightarrow>
                    let wt0 = map (\<lambda>l. exp (l - m)) logwt;
                        wt = map (\<lambda>w. w / sum_list wt0) wt0
                    in (case multinomial draw wt n of
                          Inl e \<Rightarrow> Inl e
                        | Inr idx \<Rightarrow>
                            (case attr (samples_X self) of
                               Inl e \<Rightarrow> Inl e
                             | Inr sX \<Rightarrow>
                                 (case attr (samples_logl self) of
                                    Inl e \<Rightarrow> Inl e
                                  | Inr sl \<Rightarrow> Inr (map ((!) sX) idx, map ((!) sl) idx)))))))"

text \<open>\<open>t[mask]\<close> for \<open>mask = logl >= min_logl\<close>.\<close>

definition masked :: "xreal \<Rightarrow> real list \<Rightarrow> 'a list \<Rightarrow> 'a list" where
  "masked min_logl logl t = map snd (filter (\<lambda>(l, x). \<not> xless (Finite l) min_logl) (zip logl t))"

definition get_constrained_prior_neff :: "sampler \<Rightarrow> xreal \<Rightarrow> error + real" where
  "get_constrained_prior_neff self min_logl =
     (case attr (samples_logv self) of
        Inl e \<Rightarrow> Inl e
      | Inr logv \<Rightarrow>
          (case attr (samples_logl self) of
             Inl e \<Rightarrow> Inl e
           | Inr logl \<Rightarrow>
               (case tensor_max (masked min_logl logl logv) of
                  Inl e \<Rightarrow> Inl e
                | Inr m \<Rightarrow>
                    let wt = map (\<lambda>l. exp (l - m)) (masked min_logl logl logv)
                    in Inr ((sum_list wt)\<^sup>2 / sum_list (map (\<lambda>w. w\<^sup>2) wt)))))"

definition get_constrained_prior_samples ::
  "(real list \<Rightarrow> nat \<Rightarrow> nat list) \<Rightarrow> sampler \<Rightarrow> int option \<Rightarrow> xreal \<Rightarrow> error + mat \<times> real list" where
  "get_constrained_prior_samples draw self N min_logl =
     (case (case N of None \<Rightarrow> (case get_constrained_prior_neff self min_logl of
                                   Inl e \<Rightarrow> Inl e
                                 | Inr n_eff \<Rightarrow> Inr \<lfloor>n_eff\<rfloor>)
                    | Some n \<Rightarrow> Inr n) of
        Inl e \<Rightarrow> Inl e
      | Inr n \<Rightarrow>
          (case attr (samples_logv self) of
             Inl e \<Rightarrow> Inl e
           | Inr logv \<Rightarrow>
               (case attr (samples_logl self) of
                  Inl e \<Rightarrow> Inl e
                | Inr logl \<Rightarrow>
                    (case tensor_max (masked min_logl logl logv) of
                       Inl e \<Rightarrow> Inl e
                     | Inr m \<Rightarrow>
                         let wt = map (\<lambda>l. exp (l - m)) (masked min_logl logl logv)
                         in (case multinomial draw wt n of
                               Inl e \<Rightarrow> Inl e
                             | Inr idx \<Rightarrow>
                                 (case attr (samples_X self) of
                                    Inl e \<Rightarrow> Inl e
                                  | Inr sX \<Rightarrow>
                                      Inr (map ((!) (masked min_logl logl sX)) idx,
                                           map ((!) (masked min_logl logl logl)) idx)))))))"

section \<open>\<open>generate_constrained_prior_samples\<close>\<close>

text \<open>\<open>torch.cat\<close> of a list of tensors raises on the empty list.\<close>

definition torch_cat :: "'a list list \<Rightarrow> error + 'a list" where
  "torch_cat ts = (case ts of [] \<Rightarrow> Inl (RuntimeError EmptyTensorList) | _ \<Rightarrow> Inr (concat ts))"

text \<open>
  The loop of line 184: \<open>call i X_batch\<close> is the call of \<open>_gen_new_samples\<close> in pass
  \<open>i\<close>, and the two accumulators are \<open>X_samples\<close> and \<open>L_samples\<close>.
\<close>

fun batches_loop ::
  "(nat \<Rightarrow> mat \<Rightarrow> error + mat \<times> real option list) \<Rightarrow> mat \<Rightarrow> nat \<Rightarrow> nat list \<Rightarrow>
   mat list \<Rightarrow> real option list list \<Rightarrow> error + mat list \<times> real option list list" where
  "batches_loop call X_seeds bs [] X_samples L_samples = Inr (X_samples, L_samples)"
| "batches_loop call X_seeds bs (i # js) X_samples L_samples =
     (let X_batch = take bs (drop (i * bs) X_seeds)
      in case call i X_batch of
           Inl e \<Rightarrow> Inl e
         | Inr (X_new, L_new) \<Rightarrow>
             batches_loop call X_seeds bs js (X_samples @ [X_new]) (L_samples @ [L_new]))"

text \<open>
  \<open>generate_constrained_prior_samples\<close>: \<open>N\<close> and \<open>batch_size\<close> are Python integers,
  \<open>N // batch_size\<close> is the floor division and \<open>range\<close> of a negative number is empty.
  The kernel is called with its defaults \<open>max_step_size = 1.0\<close>, \<open>samples_per_slice = 5\<close>
  and no whitening factor; \<open>randn i\<close> and \<open>rand i\<close> are the random draws of pass \<open>i\<close>.
\<close>

definition generate_constrained_prior_samples ::
  "(mat \<Rightarrow> real list) \<Rightarrow> (real list \<Rightarrow> nat \<Rightarrow> nat list) \<Rightarrow>
   (nat \<Rightarrow> nat \<Rightarrow> nat \<Rightarrow> nat \<Rightarrow> real) \<Rightarrow> (nat \<Rightarrow> nat \<Rightarrow> nat \<Rightarrow> nat \<Rightarrow> real) \<Rightarrow>
   sampler \<Rightarrow> (vec \<Rightarrow> real) \<Rightarrow> int \<Rightarrow> xreal \<Rightarrow> int \<Rightarrow> nat \<Rightarrow>
   error + mat \<times> real option list" where
  "generate_constrained_prior_samples eigvalsh draw randn rand self logl_fn N min_logl
       batch_size nsteps =
     (case get_constrained_prior_samples draw self (Some N) min_logl of
        Inl e \<Rightarrow> Inl e
      | Inr (X_seeds, _) \<Rightarrow>
          (case calc_Lchol eigvalsh (ndim self) X_seeds of
             Inl e \<Rightarrow> Inl e
           | Inr Lchol \<Rightarrow>
               if batch_size = 0 then Inl ZeroDivisionError
               else
                 (case batches_loop
                         (\<lambda>i X_batch. gen_new_samples eigvalsh self X_batch logl_fn min_logl
                                         nsteps 1 5 None (randn i) (rand i))
                         X_seeds (nat batch_size) [0..<nat (N div batch_size)] [] [] of
                    Inl e \<Rightarrow> Inl e
                  | Inr (X_samples, L_samples) \<Rightarrow>
                      (case torch_cat X_samples of
                         Inl e \<Rightarrow> Inl e
                       | Inr Xc \<Rightarrow>
                           (case torch_cat L_samples of
                              Inl e \<Rightarrow> Inl e
                            | Inr Lc \<Rightarrow> Inr (Xc, Lc))))))"

section \<open>Invariants of the driver loop\<close>

text \<open>The minimum of the live log-likelihoods, for a population that is not empty.\<close>

definition live_min :: "locals \<Rightarrow> real" where "live_min s = Min (set (loc_L_live s))"

text \<open>
  The bookkeeping of the archive after any number of replacements: the three logs have
  one entry per record, the current volume is \<open>(1 - 1/NLP)\<close> to the number of records,
  and record \<open>k\<close> holds the logarithm of the volume before its shrink and the weight
  computed from the volume after it.
\<close>

definition archive_inv :: "nat \<Rightarrow> locals \<Rightarrow> bool" where
  "archive_inv NLP s \<longleftrightarrow>
     length (loc_samples_logl s) = length (loc_samples_logv s) \<and>
     length (loc_samples_logwt s) = length (loc_samples_logv s) \<and>
     loc_V s = (1 - 1 / real NLP) ^ length (loc_samples_logv s) \<and>
     (\<forall>k<length (loc_samples_logv s).
        loc_samples_logv s ! k = ln ((1 - 1 / real NLP) ^ k) \<and>
        loc_samples_logwt s ! k =
          loc_samples_logl s ! k + ln ((1 - 1 / real NLP) ^ Suc k / real NLP))"

text \<open>
  The population keeps its size, and a record is only ever appended for a population
  of two points or more.
\<close>

definition size_inv :: "nat \<Rightarrow> locals \<Rightarrow> bool" where
  "size_inv NLP s \<longleftrightarrow>
     length (loc_X_live s) = NLP \<and> (loc_samples_logv s \<noteq> [] \<longrightarrow> 2 \<le> NLP)"

section \<open>A worked run\<close>

text \<open>
  Five live points in the unit square, the oracle \<open>x + y\<close>, one pass of the driver with
  two chains that both start at the centre, one slice step and one offset per slice.
  The random draws are the directions \<open>(1, 0)\<close> and \<open>(0, 1)\<close> and the uniform number
  \<open>3/4\<close>. The covariance of the population is a quarter of the identity, its
  factor half the identity, and the two proposals \<open>(3/4, 1/2)\<close> and \<open>(1/2, 3/4)\<close> replace
  the live points \<open>(0, 0)\<close> and \<open>(1, 0)\<close> in turn.
\<close>

definition ex_X :: mat where
  "ex_X = [[0, 0], [1, 1], [1, 0], [0, 1], [1/2, 1/2]]"

definition ex_logl :: "vec \<Rightarrow> real" where
  "ex_logl x = sum_list x"

definition ex_sampler :: sampler where
  "ex_sampler = \<lparr>X_init = ex_X, X_live = ex_X, L_live = None, ndim = 2,
                  inbound = inbound_unitcube, samples_X = None, samples_logv = None,
                  samples_logl = None, samples_logwt = None\<rparr>"

definition ex_rng :: rng where
  "ex_rng = \<lparr>rng_choice = (\<lambda>i j. 4),
             rng_randn = (\<lambda>i k b d. if b = d then 1 else 0),
             rng_rand = (\<lambda>i k j b. 3/4)\<rparr>"

definition ex_cfg :: config where
  "ex_cfg = \<lparr>cfg_logl_th_max = PosInf, cfg_max_steps = 1, cfg_num_batch_samples = 2,
             cfg_epsilon = 0, cfg_max_step_size = 1, cfg_samples_per_slice = 1,
             cfg_num_steps = 1\<rparr>"

definition ex_eig :: "mat \<Rightarrow> real list" where "ex_eig cov = []"

definition ex_start :: locals where
  "ex_start = (init_locals ex_sampler ex_logl)\<lparr>loc_logl_th := Finite 0\<rparr>"

definition ex_mid :: locals where
  "ex_mid = \<lparr>loc_X_live = [[3/4, 1/2], [1, 1], [1, 0], [0, 1], [1/2, 1/2]],
      loc_L_live = [5/4, 2, 1, 1, 1],
      loc_V = 4/5,
      loc_samples_X = [[0, 0]], loc_samples_logl = [0],
      loc_samples_logv = [0],
      loc_samples_Z = [4/25],
      loc_samples_logwt = [ln (4/25)],
      loc_logl_th = Finite 0, loc_Z = 4/25, loc_Z_rest = Finite (4/5 * exp 2)\<rparr>"

definition ex_final :: locals where
  "ex_final = \<lparr>loc_X_live = [[3/4, 1/2], [1, 1], [1/2, 3/4], [0, 1], [1/2, 1/2]],
      loc_L_live = [5/4, 2, 5/4, 1, 1],
      loc_V = 16/25,
      loc_samples_X = [[0, 0], [1, 0]], loc_samples_logl = [0, 1],
      loc_samples_logv = [0, ln (4/5)],
      loc_samples_Z = [4/25, 16/125 * exp 1],
      loc_samples_logwt = [ln (4/25), 1 + ln (16/125)],
      loc_logl_th = Finite 0, loc_Z = 4/25 + 16/125 * exp 1, loc_Z_rest = Finite (16/25 * exp 2)\<rparr>"

definition ex_result :: sampler where
  "ex_result = ex_sampler\<lparr>X_live := [[3/4, 1/2], [1, 1], [1/2, 3/4], [0, 1], [1/2, 1/2]],
      L_live := Some [5/4, 2, 5/4, 1, 1],
      samples_X := Some [[0, 0], [1, 0]],
      samples_logv := Some [0, ln (4/5)],
      samples_logl := Some [0, 1],
      samples_logwt := Some [ln (4/25), 1 + ln (16/125)]\<rparr>"

text \<open>
  The archive is empty when no run has stored it, or when the run stored no record.
\<close>

definition archive_empty :: "sampler \<Rightarrow> bool" where
  "archive_empty self \<longleftrightarrow>
     (samples_X self = None \<and> samples_logv self = None \<and>
      samples_logl self = None \<and> samples_logwt self = None) \<or>
     (samples_X self = Some [] \<and> samples_logv self = Some [] \<and>
      samples_logl self = Some [] \<and> samples_logwt self = Some [])"

text \<open>The worked run without a single pass: it stores an archive without records.\<close>

definition ex_cfg0 :: config where
  "ex_cfg0 = ex_cfg\<lparr>cfg_max_steps := 0\<rparr>"

definition ex_idle :: sampler where
  "ex_idle = ex_sampler\<lparr>X_live := ex_X, L_live := Some [0, 2, 1, 1, 1],
      samples_X := Some [], samples_logv := Some [], samples_logl := Some [],
      samples_logwt := Some []\<rparr>"

text \<open>
  The worked run with three chains: the third one moves like the first and replaces the
  live point \<open>(0, 1)\<close>, so the archive holds three records. Nine seeds drawn from them
  (four times the first, once the second, four times the third) have a covariance with
  the factor \<open>[[1/3, 0], [-1/6, 1/2]]\<close>.
\<close>

definition ex_rng3 :: rng where
  "ex_rng3 = \<lparr>rng_choice = (\<lambda>i j. 4),
             rng_randn = (\<lambda>i k b d. if b = 1 then (if d = 1 then 1 else 0)
                                       else (if d = 0 then 1 else 0)),
             rng_rand = (\<lambda>i k j b. 3/4)\<rparr>"

definition ex_cfg3 :: config where
  "ex_cfg3 = ex_cfg\<lparr>cfg_num_batch_samples := 3\<rparr>"

definition ex_final3 :: locals where
  "ex_final3 = \<lparr>loc_X_live = [[3/4, 1/2], [1, 1], [1/2, 3/4], [3/4, 1/2], [1/2, 1/2]],
      loc_L_live = [5/4, 2, 5/4, 5/4, 1],
      loc_V = 64/125,
      loc_samples_X = [[0, 0], [1, 0], [0, 1]], loc_samples_logl = [0, 1, 1],
      loc_samples_logv = [0, ln (4/5), ln (16/25)],
      loc_samples_Z = [4/25, 16/125 * exp 1, 64/625 * exp 1],
      loc_samples_logwt = [ln (4/25), 1 + ln (16/125), 1 + ln (64/625)],
      loc_logl_th = Finite 0, loc_Z = 4/25 + 16/125 * exp 1 + 64/625 * exp 1,
      loc_Z_rest = Finite (64/125 * exp 2)\<rparr>"

definition ex_result3 :: sampler where
  "ex_result3 = ex_sampler\<lparr>X_live := [[3/4, 1/2], [1, 1], [1/2, 3/4], [3/4, 1/2], [1/2, 1/2]],
      L_live := Some [5/4, 2, 5/4, 5/4, 1],
      samples_X := Some [[0, 0], [1, 0], [0, 1]],
      samples_logv := Some [0, ln (4/5), ln (16/25)],
      samples_logl := Some [0, 1, 1],
      samples_logwt := Some [ln (4/25), 1 + ln (16/125), 1 + ln (64/625)]\<rparr>"

definition ex_draw :: "real list \<Rightarrow> nat \<Rightarrow> nat list" where
  "ex_draw wt n = [0, 0, 0, 0, 1, 2, 2, 2, 2]"

definition ex_seeds :: mat where
  "ex_seeds = [[0, 0], [0, 0], [0, 0], [0, 0], [1, 0], [0, 1], [0, 1], [0, 1], [0, 1]]"

text \<open>
  The acceptance rule of line 81, for one proposal: its log-likelihood exceeds the
  threshold and it lies within the bounds.
\<close>

definition acceptable :: "(vec \<Rightarrow> bool) \<Rightarrow> (vec \<Rightarrow> real) \<Rightarrow> xreal \<Rightarrow> vec \<Rightarrow> bool" where
  "acceptable inb logl_fn logl_th p \<longleftrightarrow> xless logl_th (Finite (logl_fn p)) \<and> inb p"

text \<open>The proposals \<open>pX[b]\<close> of chain \<open>b\<close> in one step, in the order generated.\<close>

definition chain_candidates ::
  "real \<Rightarrow> nat \<Rightarrow> mat \<Rightarrow> nat \<Rightarrow> nat \<Rightarrow> (nat \<Rightarrow> nat \<Rightarrow> real) \<Rightarrow> (nat \<Rightarrow> nat \<Rightarrow> real) \<Rightarrow> chains \<Rightarrow>
   nat \<Rightarrow> mat" where
  "chain_candidates max_step_size S Lchol B D t u st b =
     proposals (ch_X st) (get_directions B D t)
       (map (map (\<lambda>x. x * max_step_size)) (get_slice_sample_points B S u)) Lchol ! b"

text \<open>
  One step of two chains from the centre with two offsets per slice and the threshold
  \<open>1\<close>: the first chain proposes \<open>(1/4, 1/2)\<close>, which is below the threshold, and then
  \<open>(3/4, 1/2)\<close>, which is above it; the second chain proposes two points below it.
\<close>

definition ex_t :: "nat \<Rightarrow> nat \<Rightarrow> real" where
  "ex_t b d = (if b = d then 1 else 0)"

definition ex_u :: "nat \<Rightarrow> nat \<Rightarrow> real" where
  "ex_u j b = (if j = 0 then 1/4 else if b = 0 then 2/3 else 1/6)"

definition ex_chains :: chains where
  "ex_chains = \<lparr>ch_X = [[1/2, 1/2], [1/2, 1/2]], ch_logl = [None, None], ch_C = [0, 0]\<rparr>"

definition ex_chains' :: chains where
  "ex_chains' = \<lparr>ch_X = [[3/4, 1/2], [1/2, 1/2]], ch_logl = [Some (5/4), None], ch_C = [1, 0]\<rparr>"

section \<open>Matrices\<close>



definition square :: "mat \<Rightarrow> bool" where
  "square A \<longleftrightarrow> (\<forall>row\<in>set A. length row = length A)"

definition symmetric :: "mat \<Rightarrow> bool" where
  "symmetric A \<longleftrightarrow> square A \<and> (\<forall>i<length A. \<forall>j<length A. A ! i ! j = A ! j ! i)"





text \<open>
  Symmetry along the recursion of the factorisation: the first row repeats the first
  column, and the trailing block is symmetric again.
\<close>

fun sym_rec :: "mat \<Rightarrow> bool" where
  "sym_rec [] = True"
| "sym_rec (r # rows) =
     (length r = Suc (length rows) \<and> (\<forall>row\<in>set rows. length row = Suc (length rows)) \<and>
      tl r = map hd rows \<and> sym_rec (map tl rows))"


text \<open>A block minus the outer product of a column with itself.\<close>

definition rank1_update :: "mat \<Rightarrow> vec \<Rightarrow> mat" where
  "rank1_update B col = map2 (\<lambda>row c. map2 (\<lambda>x c'. x - c * c') row col) B col"






section \<open>Reductions and the position of the minimum\<close>

lemma fold_min_Min: "fold min xs (x::real) = Min (set (x # xs))"
  by (simp only: Min.set_eq_fold)

lemma tensor_min_eq_Inr: "tensor_min xs = Inr m \<longleftrightarrow> xs \<noteq> [] \<and> m = Min (set xs)"
  by (cases xs) (auto simp add: fold_min_Min simp del: set_simps)

lemma fold_max_Max: "fold max xs (x::real) = Max (set (x # xs))"
  by (simp only: Max.set_eq_fold)

lemma tensor_max_eq_Inr: "tensor_max xs = Inr m \<longleftrightarrow> xs \<noteq> [] \<and> m = Max (set xs)"
  by (cases xs) (auto simp add: fold_max_Max simp del: set_simps)

lemma argmin_takeWhile: "xs \<noteq> [] \<Longrightarrow> argmin xs = length (takeWhile (\<lambda>x. x \<noteq> Min (set xs)) xs)"
  by (cases xs) (simp_all add: argmin_def fold_min_Min del: set_simps)

lemma takeWhile_stops: "x \<in> set xs \<Longrightarrow> \<not> P x \<Longrightarrow> length (takeWhile P xs) < length xs"
  by (induction xs) auto

lemma takeWhile_before: "k < length (takeWhile P xs) \<Longrightarrow> P (xs ! k)"
  using takeWhile_nth[of k P xs] nth_mem[of k "takeWhile P xs"] set_takeWhileD[of "xs ! k" P xs]
  by auto

lemma argmin_less: "xs \<noteq> [] \<Longrightarrow> argmin xs < length xs"
proof -
  assume ne: "xs \<noteq> []"
  then have "Min (set xs) \<in> set xs" by simp
  then have "length (takeWhile (\<lambda>x. x \<noteq> Min (set xs)) xs) < length xs"
    by (rule takeWhile_stops) simp
  with ne show ?thesis by (simp add: argmin_takeWhile)
qed

lemma argmin_nth: "xs \<noteq> [] \<Longrightarrow> xs ! argmin xs = Min (set xs)"
proof -
  assume ne: "xs \<noteq> []"
  have "argmin xs < length xs" using ne by (rule argmin_less)
  then have "\<not> (xs ! argmin xs \<noteq> Min (set xs))"
    using nth_length_takeWhile[of "\<lambda>x. x \<noteq> Min (set xs)" xs] ne
    by (simp add: argmin_takeWhile)
  then show ?thesis by simp
qed

lemma Min_update_ge:
  fixes xs :: "real list"
  assumes "i < length xs" "Min (set xs) \<le> v"
  shows "Min (set xs) \<le> Min (set (xs[i := v]))"
proof -
  have ne: "xs[i := v] \<noteq> []" using assms by auto
  have "\<forall>y\<in>set (xs[i := v]). Min (set xs) \<le> y"
  proof
    fix y assume "y \<in> set (xs[i := v])"
    then have "y \<in> insert v (set xs)" using set_update_subset_insert by fastforce
    then show "Min (set xs) \<le> y" using assms by auto
  qed
  then show ?thesis using ne by simp
qed

section \<open>One replacement, one batch of candidates\<close>

lemma replace_min_cases:
  assumes "replace_min NLP x v s = Inr s'"
  obtains Lmax where
    "argmin (loc_L_live s) < length (loc_X_live s)" "NLP \<noteq> 0"
    "s' = s\<lparr>loc_samples_X := loc_samples_X s @ [loc_X_live s ! argmin (loc_L_live s)],
            loc_samples_logl := loc_samples_logl s @ [loc_L_live s ! argmin (loc_L_live s)],
            loc_samples_logv := loc_samples_logv s @ [ln (loc_V s)],
            loc_L_live := (loc_L_live s)[argmin (loc_L_live s) := v],
            loc_X_live := (loc_X_live s)[argmin (loc_L_live s) := x],
            loc_V := loc_V s * (1 - 1 / real NLP),
            loc_samples_Z := loc_samples_Z s @ [loc_V s * (1 - 1 / real NLP) / real NLP * exp (loc_L_live s ! argmin (loc_L_live s))],
            loc_samples_logwt := loc_samples_logwt s @ [loc_L_live s ! argmin (loc_L_live s) + ln (loc_V s * (1 - 1 / real NLP) / real NLP)],
            loc_Z := loc_Z s + loc_V s * (1 - 1 / real NLP) / real NLP * exp (loc_L_live s ! argmin (loc_L_live s)),
            loc_Z_rest := Finite (loc_V s * (1 - 1 / real NLP) * exp Lmax)\<rparr>"
  using assms unfolding replace_min_def Let_def
  by (auto split: if_splits sum.splits)

lemma replace_min_archive_inv:
  assumes "replace_min NLP x v s = Inr s'" "archive_inv NLP s"
  shows "archive_inv NLP s'"
proof -
  from assms(1) obtain Lmax where s': 
    "s' = s\<lparr>loc_samples_X := loc_samples_X s @ [loc_X_live s ! argmin (loc_L_live s)],
            loc_samples_logl := loc_samples_logl s @ [loc_L_live s ! argmin (loc_L_live s)],
            loc_samples_logv := loc_samples_logv s @ [ln (loc_V s)],
            loc_L_live := (loc_L_live s)[argmin (loc_L_live s) := v],
            loc_X_live := (loc_X_live s)[argmin (loc_L_live s) := x],
            loc_V := loc_V s * (1 - 1 / real NLP),
            loc_samples_Z := loc_samples_Z s @ [loc_V s * (1 - 1 / real NLP) / real NLP * exp (loc_L_live s ! argmin (loc_L_live s))],
            loc_samples_logwt := loc_samples_logwt s @ [loc_L_live s ! argmin (loc_L_live s) + ln (loc_V s * (1 - 1 / real NLP) / real NLP)],
            loc_Z := loc_Z s + loc_V s * (1 - 1 / real NLP) / real NLP * exp (loc_L_live s ! argmin (loc_L_live s)),
            loc_Z_rest := Finite (loc_V s * (1 - 1 / real NLP) * exp Lmax)\<rparr>"
    by (rule replace_min_cases)
  from assms(2) show ?thesis
    unfolding archive_inv_def s'
    by (auto simp: nth_append less_Suc_eq mult.commute)
qed

lemma replace_min_size_inv:
  assumes "replace_min NLP x v s = Inr s'" "length (loc_X_live s) = NLP" "2 \<le> NLP"
  shows "size_inv NLP s'"
  using assms(1)
  by (rule replace_min_cases) (use assms in \<open>simp add: size_inv_def\<close>)

lemma replace_min_live_min:
  assumes "replace_min NLP x v s = Inr s'" "tensor_min (loc_L_live s) = Inr m" "m < v"
  shows "loc_L_live s \<noteq> []" "loc_L_live s ! argmin (loc_L_live s) = m"
    "loc_L_live s' = (loc_L_live s)[argmin (loc_L_live s) := v]"
    "\<exists>m'. tensor_min (loc_L_live s') = Inr m' \<and> m \<le> m'"
proof -
  from assms(2) have ne: "loc_L_live s \<noteq> []" and m: "m = Min (set (loc_L_live s))"
    by (simp_all add: tensor_min_eq_Inr)
  show "loc_L_live s \<noteq> []" by (rule ne)
  show "loc_L_live s ! argmin (loc_L_live s) = m" using ne m by (simp add: argmin_nth)
  show upd: "loc_L_live s' = (loc_L_live s)[argmin (loc_L_live s) := v]"
    using assms(1) by (rule replace_min_cases) simp
  have "Min (set (loc_L_live s)) \<le> Min (set ((loc_L_live s)[argmin (loc_L_live s) := v]))"
    using ne assms(3) m by (intro Min_update_ge argmin_less) simp_all
  then show "\<exists>m'. tensor_min (loc_L_live s') = Inr m' \<and> m \<le> m'"
    using ne m upd by (simp add: tensor_min_eq_Inr)
qed

lemma process_candidates_preserves:
  assumes step: "\<And>x v s s'. P s \<Longrightarrow> replace_min NLP x v s = Inr s' \<Longrightarrow> P s'"
  shows "P s \<Longrightarrow> process_candidates NLP cs s = Inr s' \<Longrightarrow> P s'"
proof (induction cs arbitrary: s)
  case Nil
  then show ?case by simp
next
  case (Cons c cs)
  obtain x l where c: "c = (x, l)" by (cases c)
  from Cons.prems show ?case
    unfolding c
    by (auto split: sum.splits option.splits if_splits intro: Cons.IH step)
qed

lemma process_candidates_live_min:
  "process_candidates NLP cs s = Inr s' \<Longrightarrow> loc_L_live s \<noteq> [] \<Longrightarrow>
     loc_L_live s' \<noteq> [] \<and> live_min s \<le> live_min s'"
proof (induction cs arbitrary: s)
  case Nil
  then show ?case by simp
next
  case (Cons c cs)
  obtain x l where c: "c = (x, l)" by (cases c)
  show ?case
  proof (cases "\<exists>v. l = Some v \<and> live_min s < v")
    case False
    with Cons.prems show ?thesis
      unfolding c by (auto simp: live_min_def tensor_min_eq_Inr split: sum.splits option.splits if_splits)
  next
    case True
    then obtain v where l: "l = Some v" and v: "live_min s < v" by blast
    have tm: "tensor_min (loc_L_live s) = Inr (live_min s)"
      using Cons.prems(2) by (simp add: tensor_min_eq_Inr live_min_def)
    from Cons.prems(1) obtain s1 where r: "replace_min NLP x v s = Inr s1"
      and p: "process_candidates NLP cs s1 = Inr s'"
      unfolding c l using tm v by (auto split: sum.splits)
    from replace_min_live_min(4)[OF r tm v] have ne1: "loc_L_live s1 \<noteq> []" and le: "live_min s \<le> live_min s1"
      by (auto simp: tensor_min_eq_Inr live_min_def)
    from Cons.IH[OF p ne1] le show ?thesis by simp
  qed
qed

section \<open>One pass of the driver, and the run\<close>

lemma ns_iteration_cases:
  assumes "ns_iteration eigvalsh g self logl_fn cfg NLP B i s = Inr (stop, s')"
  obtains (threshold) th where "tensor_min (loc_L_live s) = Inr th"
      "s' = s\<lparr>loc_logl_th := Finite th\<rparr>"
  | (processed) th Lchol cands where "tensor_min (loc_L_live s) = Inr th"
      "calc_Lchol eigvalsh (ndim self) (loc_X_live s) = Inr Lchol"
      "process_candidates NLP cands (s\<lparr>loc_logl_th := Finite th\<rparr>) = Inr s'"
  using assms unfolding ns_iteration_def Let_def
  by (auto split: sum.splits if_splits prod.splits)

lemma calc_Lchol_two_points:
  "calc_Lchol eigvalsh D X = Inr L \<Longrightarrow> 0 < D \<Longrightarrow> 2 \<le> length X"
  unfolding calc_Lchol_def by (auto split: if_splits)

lemma ns_iteration_archive_inv:
  assumes "ns_iteration eigvalsh g self logl_fn cfg NLP B i s = Inr (stop, s')"
    and "archive_inv NLP s"
  shows "archive_inv NLP s'"
  using assms(1)
proof (cases rule: ns_iteration_cases)
  case (threshold th)
  with assms(2) show ?thesis by (simp add: archive_inv_def)
next
  case (processed th Lchol cands)
  have "archive_inv NLP (s\<lparr>loc_logl_th := Finite th\<rparr>)"
    using assms(2) by (simp add: archive_inv_def)
  then show ?thesis
    using processed(3) replace_min_archive_inv
    by (rule process_candidates_preserves[rotated])
qed

lemma ns_iteration_size_inv:
  assumes "ns_iteration eigvalsh g self logl_fn cfg NLP B i s = Inr (stop, s')"
    and "size_inv NLP s" and "0 < ndim self \<or> 2 \<le> NLP"
  shows "size_inv NLP s'"
  using assms(1)
proof (cases rule: ns_iteration_cases)
  case (threshold th)
  with assms(2) show ?thesis by (simp add: size_inv_def)
next
  case (processed th Lchol cands)
  have two: "2 \<le> NLP"
    using assms(2,3) calc_Lchol_two_points[OF processed(2)] by (auto simp: size_inv_def)
  have start: "size_inv NLP (s\<lparr>loc_logl_th := Finite th\<rparr>)"
    using assms(2) by (simp add: size_inv_def)
  have step: "\<And>x v t t'. size_inv NLP t \<Longrightarrow> replace_min NLP x v t = Inr t' \<Longrightarrow> size_inv NLP t'"
  proof -
    fix x v t t'
    assume "size_inv NLP t" and r: "replace_min NLP x v t = Inr t'"
    then have "length (loc_X_live t) = NLP" by (simp add: size_inv_def)
    with r show "size_inv NLP t'" using two by (rule replace_min_size_inv)
  qed
  show ?thesis
    using step start processed(3) by (rule process_candidates_preserves)
qed

lemma ns_iteration_live_min:
  assumes "ns_iteration eigvalsh g self logl_fn cfg NLP B i s = Inr (stop, s')"
  shows "loc_L_live s \<noteq> [] \<and> loc_L_live s' \<noteq> [] \<and> live_min s \<le> live_min s'"
  using assms
proof (cases rule: ns_iteration_cases)
  case (threshold th)
  then show ?thesis by (simp add: tensor_min_eq_Inr live_min_def)
next
  case (processed th Lchol cands)
  have ne: "loc_L_live (s\<lparr>loc_logl_th := Finite th\<rparr>) \<noteq> []"
    using processed(1) by (simp add: tensor_min_eq_Inr)
  from process_candidates_live_min[OF processed(3) ne] ne
  show ?thesis by (simp add: live_min_def)
qed

lemma ns_loop_preserves:
  assumes step: "\<And>i s stop s'. P s \<Longrightarrow> step i s = Inr (stop, s') \<Longrightarrow> P s'"
  shows "P s \<Longrightarrow> ns_loop step n i s = Inr s' \<Longrightarrow> P s'"
proof (induction n arbitrary: i s)
  case 0
  then show ?case by simp
next
  case (Suc n)
  from Suc.prems show ?case
    by (auto split: sum.splits prod.splits if_splits intro: Suc.IH step)
qed

lemma init_locals_archive_inv: "archive_inv NLP (init_locals self logl_fn)"
  by (simp add: archive_inv_def init_locals_def)

lemma init_locals_size_inv: "size_inv (length (X_live self)) (init_locals self logl_fn)"
  by (simp add: size_inv_def init_locals_def)

lemma nested_sampling_cases:
  assumes "nested_sampling eigvalsh g self logl_fn cfg = Inr self'"
  obtains s where
    "ns_loop (ns_iteration eigvalsh g self logl_fn cfg (length (X_live self))
                (min (cfg_num_batch_samples cfg) (length (X_live self))))
        (cfg_max_steps cfg) 0 (init_locals self logl_fn) = Inr s"
    "self' = self\<lparr>X_live := loc_X_live s, L_live := Some (loc_L_live s),
                 samples_X := Some (loc_samples_X s), samples_logv := Some (loc_samples_logv s),
                 samples_logl := Some (loc_samples_logl s),
                 samples_logwt := Some (loc_samples_logwt s)\<rparr>"
  using assms unfolding nested_sampling_def Let_def by (auto split: sum.splits)

lemma run_invariants:
  assumes "nested_sampling eigvalsh g self logl_fn cfg = Inr self'"
  obtains s where
    "self' = self\<lparr>X_live := loc_X_live s, L_live := Some (loc_L_live s),
                 samples_X := Some (loc_samples_X s), samples_logv := Some (loc_samples_logv s),
                 samples_logl := Some (loc_samples_logl s),
                 samples_logwt := Some (loc_samples_logwt s)\<rparr>"
    "archive_inv (length (X_live self)) s"
    "0 < ndim self \<or> 2 \<le> length (X_live self) \<Longrightarrow> size_inv (length (X_live self)) s"
proof -
  let ?N = "length (X_live self)"
  from assms obtain s where loop:
    "ns_loop (ns_iteration eigvalsh g self logl_fn cfg ?N (min (cfg_num_batch_samples cfg) ?N))
        (cfg_max_steps cfg) 0 (init_locals self logl_fn) = Inr s"
    and self': "self' = self\<lparr>X_live := loc_X_live s, L_live := Some (loc_L_live s),
                 samples_X := Some (loc_samples_X s), samples_logv := Some (loc_samples_logv s),
                 samples_logl := Some (loc_samples_logl s),
                 samples_logwt := Some (loc_samples_logwt s)\<rparr>"
    by (rule nested_sampling_cases)
  have a: "archive_inv ?N s"
    by (rule ns_loop_preserves[where P = "archive_inv ?N", OF _ init_locals_archive_inv loop])
       (rule ns_iteration_archive_inv)
  have b: "size_inv ?N s" if h: "0 < ndim self \<or> 2 \<le> ?N"
    by (rule ns_loop_preserves[where P = "size_inv ?N", OF _ init_locals_size_inv loop])
       (rule ns_iteration_size_inv, assumption+, rule h)
  from self' a b show ?thesis by (rule that)
qed

lemma shrink_pos: "2 \<le> N \<Longrightarrow> 0 < 1 - 1 / real N \<and> 1 - 1 / real N < 1"
  by (simp add: field_simps)

lemma volume_positive:
  assumes "archive_inv NLP s" and "2 \<le> NLP"
  shows "0 < loc_V s \<and> 0 < loc_V s * (1 - 1 / real NLP) / real NLP"
proof -
  from assms(2) have q: "0 < 1 - 1 / real NLP" using shrink_pos by blast
  then have "0 < (1 - 1 / real NLP) ^ length (loc_samples_logv s)" by (rule zero_less_power)
  then have v: "0 < loc_V s" using assms(1) by (simp add: archive_inv_def)
  moreover have "0 < real NLP" using assms(2) by simp
  ultimately show ?thesis using q by simp
qed

section \<open>Evaluation of the worked run\<close>

lemma ex_init: "NestedSampler_init 2 ex_X None Unitcube = Inr ex_sampler"
  by (simp add: NestedSampler_init_def ex_X_def ex_sampler_def inbound_unitcube_def)

lemma ex_X_length: "length ex_X = 5"
  by (simp add: ex_X_def)

lemma upt_0_2: "[0..<2] = [0, 1]"
  by (simp add: eval_nat_numeral)

lemma ex_cov: "torch_cov 2 ex_X = [[1/4, 0], [0, 1/4]]"
  by (simp add: torch_cov_def ex_X_def column_def dot_def Let_def upt_0_2)

lemma sqrt_quarter: "sqrt (1/4) = 1/2"
  by (simp add: real_sqrt_divide)

lemma ex_chol: "cholesky [[1/4, 0], [0, 1/4]] = Some [[1/2, 0], [0, 1/2]]"
  by (simp add: sqrt_quarter Let_def)

lemma ex_Lchol: "calc_Lchol e 2 ex_X = Inr [[1/2, 0], [0, 1/2]]"
  by (simp add: calc_Lchol_def chol_repair_def ex_cov ex_chol ex_X_length del: cholesky.simps)

lemma ex_kernel:
  "gen_new_samples e ex_sampler [[1/2, 1/2], [1/2, 1/2]] ex_logl (Finite 0) 1 1 1
     (Some [[1/2, 0], [0, 1/2]]) (\<lambda>k b d. if b = d then 1 else 0) (\<lambda>k j b. 3/4)
   = Inr ([[3/4, 1/2], [1/2, 3/4]], [Some (5/4), Some (5/4)])"
  by (simp add: gen_new_samples_def used_Lchol_def slice_step_def get_directions_def
      get_slice_sample_points_def
      proposals_def accept_matrix_def vadd_def matmul_T_def smul_def dot_def ex_logl_def
      ex_sampler_def inbound_unitcube_def argmax_def bool_int_def Let_def eval_nat_numeral)

lemma ex_iteration:
  "ns_iteration e ex_rng ex_sampler ex_logl ex_cfg 5 2 0 (init_locals ex_sampler ex_logl)
     = Inr (False, ex_final)"
  by (simp add: ns_iteration_def init_locals_def ex_final_def ex_rng_def ex_cfg_def ex_X_def
      calc_Lchol_def chol_repair_def torch_cov_def column_def sqrt_quarter
      replace_min_def argmin_def
      gen_new_samples_def used_Lchol_def slice_step_def get_directions_def
      get_slice_sample_points_def
      proposals_def accept_matrix_def vadd_def matmul_T_def smul_def dot_def ex_logl_def
      ex_sampler_def inbound_unitcube_def argmax_def bool_int_def Let_def eval_nat_numeral)

lemma ex_fields: "X_live ex_sampler = ex_X" "ndim ex_sampler = 2" "L_live ex_sampler = None"
  "cfg_num_batch_samples ex_cfg = 2" "cfg_max_steps ex_cfg = 1"
  by (simp_all add: ex_sampler_def ex_cfg_def)

lemma ex_run: "nested_sampling ex_eig ex_rng ex_sampler ex_logl ex_cfg = Inr ex_result"
  by (simp add: nested_sampling_def ex_fields ex_X_length ex_iteration ex_result_def ex_final_def)

lemma ex_start_L: "loc_L_live ex_start = [0, 2, 1, 1, 1]"
  by (simp add: ex_start_def init_locals_def ex_sampler_def ex_X_def ex_logl_def)

lemma ex_mid_L: "loc_L_live ex_mid = [5/4, 2, 1, 1, 1]"
  by (simp add: ex_mid_def)

lemma ex_replace_first: "replace_min 5 [3/4, 1/2] (5/4) ex_start = Inr ex_mid"
  by (simp add: replace_min_def argmin_def ex_start_def init_locals_def ex_sampler_def ex_X_def
      ex_logl_def ex_mid_def Let_def)

lemma ex_replace_second: "replace_min 5 [1/2, 3/4] (5/4) ex_mid = Inr ex_final"
  by (simp add: replace_min_def argmin_def ex_mid_def ex_final_def Let_def eval_nat_numeral)

lemma ex_process_first: "process_candidates 5 [([3/4, 1/2], Some (5/4))] ex_start = Inr ex_mid"
  by (simp add: ex_start_L ex_replace_first)

lemma ex_process:
  "process_candidates 5 [([3/4, 1/2], Some (5/4)), ([1/2, 3/4], Some (5/4))] ex_start = Inr ex_final"
  by (simp add: ex_start_L ex_replace_first ex_mid_L ex_replace_second)

section \<open>The archive of a run\<close>

text \<open>
  Claim C4. For every run with \<open>N\<close> live points (in a positive dimension, or with at
  least two points), the log-volume of the record appended after \<open>k\<close> replacements is
  the logarithm of \<open>(1 - 1/N)^k\<close>, so that the recorded volume is \<open>(1 - 1/N)^k\<close>, and the
  logged volumes decrease strictly from each record to the next.
\<close>

theorem archive_volumes:
  assumes "nested_sampling eigvalsh g self logl_fn cfg = Inr self'"
    and "0 < ndim self \<or> 2 \<le> length (X_live self)"
  shows "\<exists>logv. samples_logv self' = Some logv \<and>
           (\<forall>k<length logv. logv ! k = ln ((1 - 1 / real (length (X_live self))) ^ k) \<and>
                             exp (logv ! k) = (1 - 1 / real (length (X_live self))) ^ k) \<and>
           (\<forall>k. Suc k < length logv \<longrightarrow> logv ! Suc k < logv ! k)"
proof -
  let ?N = "length (X_live self)"
  let ?q = "1 - 1 / real ?N"
  from assms(1) obtain s where
    self': "samples_logv self' = Some (loc_samples_logv s)"
    and a: "archive_inv ?N s" and b: "size_inv ?N s"
    by (rule run_invariants) (use assms(2) in auto)
  let ?lv = "loc_samples_logv s"
  have q: "0 < ?q \<and> ?q < 1" if "?lv \<noteq> []"
    using b that by (intro shrink_pos) (simp add: size_inv_def)
  have eq: "?lv ! k = ln (?q ^ k)" if "k < length ?lv" for k
    using a that by (simp add: archive_inv_def)
  have ex: "exp (?lv ! k) = ?q ^ k" if "k < length ?lv" for k
  proof -
    have "?lv \<noteq> []" using that by auto
    then have "0 < ?q" using q by simp
    then have "0 < ?q ^ k" by (rule zero_less_power)
    then show ?thesis using eq[OF that] by simp
  qed
  have dec: "?lv ! Suc k < ?lv ! k" if "Suc k < length ?lv" for k
  proof -
    have ne: "?lv \<noteq> []" using that by auto
    have q0: "0 < ?q" and q1: "?q < 1" using q[OF ne] by simp_all
    have "0 < ?q ^ k" using q0 by (rule zero_less_power)
    then have "?q * ?q ^ k < 1 * ?q ^ k" using q1 by (rule mult_strict_right_mono[rotated])
    then have "?q ^ Suc k < ?q ^ k" by simp
    moreover have "0 < ?q ^ Suc k" using q0 by (rule zero_less_power)
    ultimately have "ln (?q ^ Suc k) < ln (?q ^ k)" by (rule ln_strict_mono)
    then show ?thesis using eq[of k] eq[of "Suc k"] that by simp
  qed
  show ?thesis using self' eq ex dec by simp
qed

theorem archive_volumes_witness:
  "nested_sampling ex_eig ex_rng ex_sampler ex_logl ex_cfg = Inr ex_result \<and>
   0 < ndim ex_sampler \<and>
   samples_logv ex_result = Some [0, ln (4/5)] \<and>
   0 = ln ((1 - 1 / real (length (X_live ex_sampler))) ^ 0) \<and>
   ln (4/5) = ln ((1 - 1 / real (length (X_live ex_sampler))) ^ 1) \<and>
   ln (4/5) < (0::real)"
proof -
  have h: "0 < ndim ex_sampler \<or> 2 \<le> length (X_live ex_sampler)"
    by (simp add: ex_fields)
  have lv: "samples_logv ex_result = Some [0, ln (4/5)]"
    by (simp add: ex_result_def)
  from archive_volumes[OF ex_run h] lv
  have a: "\<forall>k<2. [0, ln (4/5)] ! k = ln ((1 - 1 / real (length (X_live ex_sampler))) ^ k)"
    and d: "\<forall>k. Suc k < 2 \<longrightarrow> [0::real, ln (4/5)] ! Suc k < [0, ln (4/5)] ! k"
    by auto
  from a[rule_format, of 0] a[rule_format, of 1] d[rule_format, of 0]
  show ?thesis using ex_run h lv by (simp add: ex_fields)
qed

text \<open>
  Claim C1, as amended. The source logs the volume before it shrinks it (line 151) and
  computes the weight after the shrink (lines 154 and 157). So for every record of a
  run the log-weight is the log-likelihood plus the logarithm of
  \<open>(1 - 1/N) * volume / N\<close>, where \<open>volume\<close> is the volume whose logarithm the record
  holds.
\<close>

theorem archive_log_weight:
  assumes "nested_sampling eigvalsh g self logl_fn cfg = Inr self'"
    and "0 < ndim self \<or> 2 \<le> length (X_live self)"
  shows "\<exists>logv logl logwt.
           samples_logv self' = Some logv \<and> samples_logl self' = Some logl \<and>
           samples_logwt self' = Some logwt \<and>
           length logl = length logv \<and> length logwt = length logv \<and>
           (\<forall>k<length logwt.
              logwt ! k = logl ! k +
                ln (exp (logv ! k) * (1 - 1 / real (length (X_live self))) /
                    real (length (X_live self))))"
proof -
  let ?N = "length (X_live self)"
  let ?q = "1 - 1 / real ?N"
  from assms(1) obtain s where
    self': "samples_logv self' = Some (loc_samples_logv s)"
      "samples_logl self' = Some (loc_samples_logl s)"
      "samples_logwt self' = Some (loc_samples_logwt s)"
    and a: "archive_inv ?N s" and b: "size_inv ?N s"
    by (rule run_invariants) (use assms(2) in auto)
  have len: "length (loc_samples_logl s) = length (loc_samples_logv s)"
    "length (loc_samples_logwt s) = length (loc_samples_logv s)"
    using a by (simp_all add: archive_inv_def)
  have w: "loc_samples_logwt s ! k = loc_samples_logl s ! k +
      ln (exp (loc_samples_logv s ! k) * ?q / real ?N)" if "k < length (loc_samples_logwt s)" for k
  proof -
    have k: "k < length (loc_samples_logv s)" using that len by simp
    then have "loc_samples_logv s \<noteq> []" by auto
    then have "0 < ?q" using b shrink_pos[of ?N] by (simp add: size_inv_def)
    then have "0 < ?q ^ k" by (rule zero_less_power)
    then have "exp (ln (?q ^ k)) = ?q ^ k" by simp
    then show ?thesis using a k by (simp add: archive_inv_def mult.commute)
  qed
  show ?thesis using self' len w by simp
qed

theorem archive_log_weight_witness:
  "nested_sampling ex_eig ex_rng ex_sampler ex_logl ex_cfg = Inr ex_result \<and>
   0 < ndim ex_sampler \<and>
   samples_logv ex_result = Some [0, ln (4/5)] \<and>
   samples_logl ex_result = Some [0, 1] \<and>
   samples_logwt ex_result = Some [ln (4/25), 1 + ln (16/125)] \<and>
   1 + ln (16/125) = 1 + ln (exp (ln (4/5)) * (1 - 1 / real (length (X_live ex_sampler))) /
                             real (length (X_live ex_sampler)))"
proof -
  have h: "0 < ndim ex_sampler \<or> 2 \<le> length (X_live ex_sampler)"
    by (simp add: ex_fields)
  have f: "samples_logv ex_result = Some [0, ln (4/5)]"
    "samples_logl ex_result = Some [0, 1]"
    "samples_logwt ex_result = Some [ln (4/25), 1 + ln (16/125)]"
    by (simp_all add: ex_result_def)
  from archive_log_weight[OF ex_run h] f
  have "\<forall>k<2. [ln (4/25), 1 + ln (16/125)] ! k = [0, 1] ! k +
          ln (exp ([0, ln (4/5)] ! k) * (1 - 1 / real (length (X_live ex_sampler))) /
              real (length (X_live ex_sampler)))"
    by auto
  from this[rule_format, of 1] show ?thesis using ex_run h f by (simp add: ex_fields ex_X_length)
qed

text \<open>
  Claim C1, as stated, fails on the first record of the worked run: its log-volume is
  \<open>ln 1\<close>, its log-likelihood \<open>0\<close> and its log-weight \<open>ln (4/25)\<close>, whereas the
  log-likelihood plus the logarithm of the logged volume over \<open>N = 5\<close> is \<open>ln (1/5)\<close>.
\<close>

theorem archive_log_weight_counterexample:
  "nested_sampling ex_eig ex_rng ex_sampler ex_logl ex_cfg = Inr ex_result \<and>
   the (samples_logwt ex_result) ! 0 \<noteq>
     the (samples_logl ex_result) ! 0 +
       ln (exp (the (samples_logv ex_result) ! 0) / real (length (X_live ex_sampler)))"
proof -
  have "ln (4/25) \<noteq> ln (1/5 :: real)"
    by (subst ln_inj_iff) simp_all
  then show ?thesis
    using ex_run by (simp add: ex_result_def ex_fields ex_X_length)
qed

section \<open>The threshold of a run\<close>

text \<open>
  Claim C5. A batch of candidates changes the state only by a replacement, which
  overwrites the entry at the position of the current minimum \<open>m\<close> with a value
  \<open>v > m\<close>; the minimum of the live log-likelihoods after a pass of the driver is not
  below the one before it; and the minimum after the run is not below the initial one.
\<close>

theorem live_minimum_nondecreasing:
  "(process_candidates NLP ((x, l) # cs) s = Inr s' \<longrightarrow> tensor_min (loc_L_live s) = Inr m \<longrightarrow>
      s' = s \<or>
      (\<exists>v s1. l = Some v \<and> m < v \<and> replace_min NLP x v s = Inr s1 \<and>
          loc_L_live s ! argmin (loc_L_live s) = m \<and>
          loc_L_live s1 = (loc_L_live s)[argmin (loc_L_live s) := v] \<and>
          process_candidates NLP cs s1 = Inr s')) \<and>
   (ns_iteration eigvalsh g self logl_fn cfg NLP B i t = Inr (stop, t') \<longrightarrow>
      (\<exists>a b. tensor_min (loc_L_live t) = Inr a \<and> tensor_min (loc_L_live t') = Inr b \<and> a \<le> b)) \<and>
   (nested_sampling eigvalsh g self logl_fn cfg = Inr self' \<longrightarrow>
      tensor_min (loc_L_live (init_locals self logl_fn)) = Inr m0 \<longrightarrow>
      (\<exists>L' b. L_live self' = Some L' \<and> tensor_min L' = Inr b \<and> m0 \<le> b))"
proof (intro conjI impI)
  assume p: "process_candidates NLP ((x, l) # cs) s = Inr s'"
    and tm: "tensor_min (loc_L_live s) = Inr m"
  show "s' = s \<or>
      (\<exists>v s1. l = Some v \<and> m < v \<and> replace_min NLP x v s = Inr s1 \<and>
          loc_L_live s ! argmin (loc_L_live s) = m \<and>
          loc_L_live s1 = (loc_L_live s)[argmin (loc_L_live s) := v] \<and>
          process_candidates NLP cs s1 = Inr s')"
  proof (cases "\<exists>v. l = Some v \<and> m < v")
    case False
    with p tm show ?thesis by (auto split: option.splits if_splits)
  next
    case True
    then obtain v where l: "l = Some v" and v: "m < v" by blast
    from p obtain s1 where r: "replace_min NLP x v s = Inr s1"
      and q: "process_candidates NLP cs s1 = Inr s'"
      using tm v unfolding l by (auto split: sum.splits)
    from replace_min_live_min(2,3)[OF r tm v] l v r q show ?thesis by blast
  qed
next
  assume "ns_iteration eigvalsh g self logl_fn cfg NLP B i t = Inr (stop, t')"
  from ns_iteration_live_min[OF this]
  show "\<exists>a b. tensor_min (loc_L_live t) = Inr a \<and> tensor_min (loc_L_live t') = Inr b \<and> a \<le> b"
    unfolding tensor_min_eq_Inr live_min_def by blast
next
  assume run: "nested_sampling eigvalsh g self logl_fn cfg = Inr self'"
    and tm: "tensor_min (loc_L_live (init_locals self logl_fn)) = Inr m0"
  let ?N = "length (X_live self)"
  from run obtain s where loop:
    "ns_loop (ns_iteration eigvalsh g self logl_fn cfg ?N (min (cfg_num_batch_samples cfg) ?N))
        (cfg_max_steps cfg) 0 (init_locals self logl_fn) = Inr s"
    and self': "self' = self\<lparr>X_live := loc_X_live s, L_live := Some (loc_L_live s),
                 samples_X := Some (loc_samples_X s), samples_logv := Some (loc_samples_logv s),
                 samples_logl := Some (loc_samples_logl s),
                 samples_logwt := Some (loc_samples_logwt s)\<rparr>"
    by (rule nested_sampling_cases)
  let ?P = "\<lambda>u. loc_L_live u \<noteq> [] \<and> m0 \<le> live_min u"
  have start: "?P (init_locals self logl_fn)"
    using tm by (simp add: tensor_min_eq_Inr live_min_def)
  have "?P s"
  proof (rule ns_loop_preserves[where P = ?P, OF _ start loop])
    fix j u stp u'
    assume "?P u" and "ns_iteration eigvalsh g self logl_fn cfg ?N
        (min (cfg_num_batch_samples cfg) ?N) j u = Inr (stp, u')"
    with ns_iteration_live_min[OF this(2)] show "?P u'" by simp
  qed
  then have "tensor_min (loc_L_live s) = Inr (live_min s) \<and> m0 \<le> live_min s"
    unfolding tensor_min_eq_Inr live_min_def by blast
  moreover have "L_live self' = Some (loc_L_live s)"
    by (simp add: self')
  ultimately show "\<exists>L' b. L_live self' = Some L' \<and> tensor_min L' = Inr b \<and> m0 \<le> b"
    by blast
qed

theorem live_minimum_nondecreasing_witness:
  "process_candidates 5 [([3/4, 1/2], Some (5/4)), ([1/2, 3/4], Some (5/4))] ex_start = Inr ex_final \<and>
   tensor_min (loc_L_live ex_start) = Inr 0 \<and> ex_final \<noteq> ex_start \<and>
   loc_L_live ex_start ! argmin (loc_L_live ex_start) = 0 \<and>
   ns_iteration ex_eig ex_rng ex_sampler ex_logl ex_cfg 5 2 0 (init_locals ex_sampler ex_logl)
     = Inr (False, ex_final) \<and>
   tensor_min (loc_L_live (init_locals ex_sampler ex_logl)) = Inr 0 \<and>
   tensor_min (loc_L_live ex_final) = Inr 1 \<and>
   nested_sampling ex_eig ex_rng ex_sampler ex_logl ex_cfg = Inr ex_result \<and>
   L_live ex_result = Some [5/4, 2, 5/4, 1, 1] \<and> (0::real) \<le> 1"
proof -
  have a: "tensor_min (loc_L_live ex_start) = Inr 0" by (simp add: ex_start_L)
  have i: "tensor_min (loc_L_live (init_locals ex_sampler ex_logl)) = Inr 0"
    using ex_start_L by (simp add: ex_start_def)
  have f: "tensor_min (loc_L_live ex_final) = Inr 1" by (simp add: ex_final_def)
  have ne: "ex_final \<noteq> ex_start" using a f by auto
  have r: "L_live ex_result = Some [5/4, 2, 5/4, 1, 1]" by (simp add: ex_result_def)
  from live_minimum_nondecreasing[THEN conjunct1, rule_format, OF ex_process a] ne
  have "loc_L_live ex_start ! argmin (loc_L_live ex_start) = 0"
    by blast
  moreover from live_minimum_nondecreasing[THEN conjunct2, THEN conjunct1, rule_format,
      OF ex_iteration[of ex_eig]] i f
  have "(0::real) \<le> 1" by auto
  moreover from live_minimum_nondecreasing[THEN conjunct2, THEN conjunct2, rule_format,
      OF ex_run i] r
  have "tensor_min [5/4, 2, 5/4, 1, 1::real] = Inr (Min (set [5/4, 2, 5/4, 1, 1]))"
    by (auto simp: tensor_min_eq_Inr)
  ultimately show ?thesis using ex_process a ne ex_iteration[of ex_eig] i f ex_run r by simp
qed

text \<open>
  Claim C6. The candidates are taken in the order returned: a first candidate above
  the current minimum is the one that replaces, and the others are then processed
  against the updated population. Once a candidate does not exceed the minimum of the
  population reached, the result is the state reached before it, whatever follows it in
  the batch.
\<close>

theorem candidates_stop_at_first_failure:
  "(tensor_min (loc_L_live s) = Inr m \<longrightarrow> m < v \<longrightarrow>
      process_candidates NLP ((x, Some v) # cs) s =
        (case replace_min NLP x v s of Inl e \<Rightarrow> Inl e
         | Inr s' \<Rightarrow> process_candidates NLP cs s')) \<and>
   (process_candidates NLP pre s = Inr s1 \<longrightarrow> tensor_min (loc_L_live s1) = Inr m1 \<longrightarrow>
      (\<forall>w. l = Some w \<longrightarrow> \<not> m1 < w) \<longrightarrow>
      process_candidates NLP (pre @ (y, l) # post) s = Inr s1)"
proof (intro conjI impI)
  assume "tensor_min (loc_L_live s) = Inr m" "m < v"
  then show "process_candidates NLP ((x, Some v) # cs) s =
        (case replace_min NLP x v s of Inl e \<Rightarrow> Inl e
         | Inr s' \<Rightarrow> process_candidates NLP cs s')"
    by simp
next
  assume "process_candidates NLP pre s = Inr s1" "tensor_min (loc_L_live s1) = Inr m1"
    "\<forall>w. l = Some w \<longrightarrow> \<not> m1 < w"
  then show "process_candidates NLP (pre @ (y, l) # post) s = Inr s1"
  proof (induction pre arbitrary: s)
    case Nil
    then show ?case by (auto split: option.splits)
  next
    case (Cons c pre)
    obtain x' l' where c: "c = (x', l')" by (cases c)
    from Cons.prems show ?case
      unfolding c
      by (auto split: sum.splits option.splits if_splits intro: Cons.IH)
  qed
qed

theorem candidates_stop_at_first_failure_witness:
  "tensor_min (loc_L_live ex_start) = Inr 0 \<and> (0::real) < 5/4 \<and>
   process_candidates 5
     [([3/4, 1/2], Some (5/4)), ([1/4, 1/4], Some (1/2)), ([1, 1/2], Some (3/2))] ex_start
     = process_candidates 5 [([1/4, 1/4], Some (1/2)), ([1, 1/2], Some (3/2))] ex_mid \<and>
   process_candidates 5 [([3/4, 1/2], Some (5/4))] ex_start = Inr ex_mid \<and>
   tensor_min (loc_L_live ex_mid) = Inr 1 \<and> \<not> (1::real) < 1/2 \<and>
   process_candidates 5
     [([3/4, 1/2], Some (5/4)), ([1/4, 1/4], Some (1/2)), ([1, 1/2], Some (3/2))] ex_start
     = Inr ex_mid \<and>
   loc_samples_X ex_mid = [[0, 0]]"
proof -
  have a: "tensor_min (loc_L_live ex_start) = Inr 0" by (simp add: ex_start_L)
  have b: "tensor_min (loc_L_live ex_mid) = Inr 1" by (simp add: ex_mid_L)
  have c: "\<not> 1 < w" if "Some (1/2::real) = Some w" for w using that by auto
  have d: "(0::real) < 5/4" by simp
  have first: "process_candidates 5
      (([3/4, 1/2], Some (5/4)) # [([1/4, 1/4], Some (1/2)), ([1, 1/2], Some (3/2))]) ex_start
      = process_candidates 5 [([1/4, 1/4], Some (1/2)), ([1, 1/2], Some (3/2))] ex_mid"
    using candidates_stop_at_first_failure[THEN conjunct1, rule_format, OF a d,
        of 5 "[3/4, 1/2]" "[([1/4, 1/4], Some (1/2)), ([1, 1/2], Some (3/2))]"]
    by (simp only: ex_replace_first sum.case)
  have stop: "process_candidates 5
      ([([3/4, 1/2], Some (5/4))] @ ([1/4, 1/4], Some (1/2)) # [([1, 1/2], Some (3/2))]) ex_start
      = Inr ex_mid"
    by (rule candidates_stop_at_first_failure[THEN conjunct2, rule_format,
          OF ex_process_first b c])
  have x: "loc_samples_X ex_mid = [[0, 0]]" by (simp add: ex_mid_def)
  from first stop show ?thesis using a b d x ex_process_first
    by (simp only: append_Cons append_Nil) simp
qed

section \<open>The resampler\<close>

lemma ex_idle_run: "nested_sampling ex_eig ex_rng ex_sampler ex_logl ex_cfg0 = Inr ex_idle"
  by (simp add: nested_sampling_def ex_cfg0_def ex_idle_def init_locals_def ex_sampler_def
      ex_X_def ex_logl_def)

text \<open>
  Claim C8. On an empty archive, \<open>get_posterior_samples\<close> and
  \<open>get_constrained_prior_samples\<close> raise, for every requested number of samples (given
  or left to the effective sample size) and every threshold: an \<open>AttributeError\<close> when
  no run has been performed, the \<open>RuntimeError\<close> of the maximum of an empty tensor when
  the run stored no record.
\<close>

theorem empty_archive_resampling_fails:
  assumes "archive_empty self"
  shows "get_posterior_samples draw self N \<in> {Inl AttributeError, Inl (RuntimeError EmptyReduction)} \<and>
         get_constrained_prior_samples draw self N min_logl
           \<in> {Inl AttributeError, Inl (RuntimeError EmptyReduction)}"
  using assms
  by (cases N)
     (auto simp: archive_empty_def get_posterior_samples_def get_posterior_neff_def
        get_constrained_prior_samples_def get_constrained_prior_neff_def attr_def masked_def)

theorem empty_archive_resampling_fails_witness:
  "archive_empty ex_sampler \<and>
   get_posterior_samples (\<lambda>wt n. replicate n 0) ex_sampler (Some 3) = Inl AttributeError \<and>
   get_constrained_prior_samples (\<lambda>wt n. replicate n 0) ex_sampler (Some 3) NegInf = Inl AttributeError \<and>
   nested_sampling ex_eig ex_rng ex_sampler ex_logl ex_cfg0 = Inr ex_idle \<and>
   archive_empty ex_idle \<and>
   get_posterior_samples (\<lambda>wt n. replicate n 0) ex_idle None = Inl (RuntimeError EmptyReduction) \<and>
   get_constrained_prior_samples (\<lambda>wt n. replicate n 0) ex_idle (Some 3) NegInf
     = Inl (RuntimeError EmptyReduction)"
proof -
  let ?d = "\<lambda>(wt::real list) n. replicate n (0::nat)"
  have a: "archive_empty ex_sampler" by (simp add: archive_empty_def ex_sampler_def)
  have b: "archive_empty ex_idle" by (simp add: archive_empty_def ex_idle_def)
  have n: "get_posterior_samples ?d ex_sampler (Some 3) \<noteq> Inl (RuntimeError EmptyReduction)"
    "get_constrained_prior_samples ?d ex_sampler (Some 3) NegInf \<noteq> Inl (RuntimeError EmptyReduction)"
    by (simp_all add: get_posterior_samples_def get_constrained_prior_samples_def attr_def
        ex_sampler_def)
  have i: "get_posterior_samples ?d ex_idle None \<noteq> Inl AttributeError"
    "get_constrained_prior_samples ?d ex_idle (Some 3) NegInf \<noteq> Inl AttributeError"
    by (simp_all add: get_posterior_samples_def get_posterior_neff_def
        get_constrained_prior_samples_def attr_def masked_def ex_idle_def)
  from empty_archive_resampling_fails[OF a, of ?d "Some 3" NegInf]
       empty_archive_resampling_fails[OF b, of ?d None NegInf]
       empty_archive_resampling_fails[OF b, of ?d "Some 3" NegInf]
  show ?thesis using a b ex_idle_run n i by blast
qed






section \<open>Seeds, batches and the default whitening factor\<close>

lemma ex_iteration3:
  "ns_iteration e ex_rng3 ex_sampler ex_logl ex_cfg3 5 3 0 (init_locals ex_sampler ex_logl)
     = Inr (False, ex_final3)"
  by (simp add: ns_iteration_def init_locals_def ex_final3_def ex_rng3_def ex_cfg3_def ex_cfg_def ex_X_def
      calc_Lchol_def chol_repair_def torch_cov_def column_def sqrt_quarter
      replace_min_def argmin_def
      gen_new_samples_def used_Lchol_def slice_step_def get_directions_def
      get_slice_sample_points_def
      proposals_def accept_matrix_def vadd_def matmul_T_def smul_def dot_def ex_logl_def
      ex_sampler_def inbound_unitcube_def argmax_def bool_int_def Let_def eval_nat_numeral)

lemma ex_fields3: "cfg_num_batch_samples ex_cfg3 = 3" "cfg_max_steps ex_cfg3 = 1"
  by (simp_all add: ex_cfg3_def ex_cfg_def)

lemma ex_run3: "nested_sampling ex_eig ex_rng3 ex_sampler ex_logl ex_cfg3 = Inr ex_result3"
  by (simp add: nested_sampling_def ex_fields ex_fields3 ex_X_length ex_iteration3 ex_result3_def
      ex_final3_def)

lemma ex_seeds_drawn:
  "get_constrained_prior_samples ex_draw ex_result3 (Some 9) NegInf
     = Inr (ex_seeds, [0, 0, 0, 0, 1, 1, 1, 1, 1])"
  by (simp add: get_constrained_prior_samples_def attr_def ex_result3_def masked_def
      multinomial_def ex_draw_def ex_seeds_def Let_def)

lemma sqrt_ninth: "sqrt (1/9) = 1/3"
  by (rule real_sqrt_unique) (simp_all add: power2_eq_square)

lemma ex_seeds_cov: "torch_cov 2 ex_seeds = [[1/9, - (1/18)], [- (1/18), 5/18]]"
  by (simp add: torch_cov_def ex_seeds_def column_def dot_def Let_def upt_0_2)

lemma ex_seeds_chol:
  "cholesky [[1/9, - (1/18)], [- (1/18), 5/18]] = Some [[1/3, 0], [- (1/6), 1/2]]"
  by (simp add: sqrt_ninth sqrt_quarter Let_def)

lemma ex_seeds_Lchol: "calc_Lchol e 2 ex_seeds = Inr [[1/3, 0], [- (1/6), 1/2]]"
  by (simp add: calc_Lchol_def chol_repair_def ex_seeds_cov ex_seeds_chol del: cholesky.simps)
     (simp add: ex_seeds_def)

lemma cholesky_first_entry:
  "cholesky (r # rows) = Some L \<Longrightarrow> hd (hd L) = sqrt (hd r)"
  by (auto simp: Let_def split: if_splits option.splits)

lemma ex_live3_cov_first: "hd (hd (torch_cov 2 (X_live ex_result3))) = 7/160"
  by (simp add: torch_cov_def ex_result3_def column_def dot_def Let_def upt_0_2)

lemma ex_live3_Lchol: "calc_Lchol ex_eig 2 (X_live ex_result3) \<noteq> Inr [[1/3, 0], [- (1/6), 1/2]]"
proof
  assume a: "calc_Lchol ex_eig 2 (X_live ex_result3) = Inr [[1/3, 0], [- (1/6), 1/2]]"
  have ne: "torch_cov 2 (X_live ex_result3) \<noteq> []"
    by (simp add: torch_cov_def upt_0_2 Let_def)
  then obtain r rows where c: "torch_cov 2 (X_live ex_result3) = r # rows"
    by (cases "torch_cov 2 (X_live ex_result3)") auto
  have len: "\<not> length (X_live ex_result3) < 2" by (simp add: ex_result3_def)
  from a have "cholesky (r # rows) = Some [[1/3, 0], [- (1/6), 1/2]]"
    unfolding calc_Lchol_def chol_repair_def c[symmetric] ex_eig_def
    using len by (simp split: option.splits del: cholesky.simps)
  from cholesky_first_entry[OF this] have "sqrt (hd r) = 1/3" by simp
  moreover have "hd r = 7/160" using ex_live3_cov_first c by simp
  ultimately have "sqrt (7/160) = sqrt (1/9)" by (simp add: sqrt_ninth)
  then show False by simp
qed

text \<open>
  Claim C10. For \<open>1 \<le> N < batch_size\<close> the loop of
  \<open>generate_constrained_prior_samples\<close> has no pass, and the call never returns samples:
  it raises what the draw of the seeds or the whitener raises, and otherwise the
  \<open>RuntimeError\<close> of \<open>torch.cat\<close> on the empty list.
\<close>

theorem small_request_fails:
  assumes "1 \<le> N" and "N < batch_size"
  shows "[0..<nat (N div batch_size)] = [] \<and>
         generate_constrained_prior_samples eigvalsh draw randn rand self logl_fn N min_logl
             batch_size nsteps =
           (case get_constrained_prior_samples draw self (Some N) min_logl of
              Inl e \<Rightarrow> Inl e
            | Inr (X_seeds, L_seeds) \<Rightarrow>
                (case calc_Lchol eigvalsh (ndim self) X_seeds of
                   Inl e \<Rightarrow> Inl e
                 | Inr Lchol \<Rightarrow> Inl (RuntimeError EmptyTensorList))) \<and>
         (\<exists>e. generate_constrained_prior_samples eigvalsh draw randn rand self logl_fn N
                 min_logl batch_size nsteps = Inl e)"
proof -
  have z: "N div batch_size = 0" using assms by (simp add: div_pos_pos_trivial)
  have nz: "batch_size \<noteq> 0" using assms by simp
  have eq: "generate_constrained_prior_samples eigvalsh draw randn rand self logl_fn N min_logl
             batch_size nsteps =
           (case get_constrained_prior_samples draw self (Some N) min_logl of
              Inl e \<Rightarrow> Inl e
            | Inr (X_seeds, L_seeds) \<Rightarrow>
                (case calc_Lchol eigvalsh (ndim self) X_seeds of
                   Inl e \<Rightarrow> Inl e
                 | Inr Lchol \<Rightarrow> Inl (RuntimeError EmptyTensorList)))"
    unfolding generate_constrained_prior_samples_def
    by (simp add: z nz torch_cat_def split: sum.splits prod.splits)
  show ?thesis
    unfolding eq using z by (auto split: sum.splits prod.splits)
qed

theorem small_request_fails_witness:
  "(1::int) \<le> 9 \<and> (9::int) < 100 \<and>
   nested_sampling ex_eig ex_rng3 ex_sampler ex_logl ex_cfg3 = Inr ex_result3 \<and>
   get_constrained_prior_samples ex_draw ex_result3 (Some 9) NegInf
     = Inr (ex_seeds, [0, 0, 0, 0, 1, 1, 1, 1, 1]) \<and>
   calc_Lchol ex_eig (ndim ex_result3) ex_seeds = Inr [[1/3, 0], [- (1/6), 1/2]] \<and>
   generate_constrained_prior_samples ex_eig ex_draw (rng_randn ex_rng3) (rng_rand ex_rng3)
       ex_result3 ex_logl 9 NegInf 100 10 = Inl (RuntimeError EmptyTensorList)"
proof -
  have a: "(1::int) \<le> 9" and b: "(9::int) < 100" by simp_all
  have d: "ndim ex_result3 = 2" by (simp add: ex_result3_def ex_sampler_def)
  from small_request_fails[OF a b, of ex_eig ex_draw "rng_randn ex_rng3" "rng_rand ex_rng3"
      ex_result3 ex_logl NegInf 10]
  show ?thesis
    using ex_run3 by (simp add: ex_seeds_drawn ex_seeds_Lchol d)
qed

text \<open>
  Claim C3, as amended. Without a precomputed factor, \<open>_gen_new_samples\<close> computes the
  whitening factor from the seed points it was given (line 66): its result is that of the
  call with the factor of the seeds, and it does not depend on the live population.
\<close>

theorem default_factor_from_seeds:
  "used_Lchol eigvalsh (ndim self) X_seeds None = calc_Lchol eigvalsh (ndim self) X_seeds \<and>
   gen_new_samples eigvalsh self X_seeds logl_fn logl_th nsteps step_size S None randn rand =
     (case calc_Lchol eigvalsh (ndim self) X_seeds of
        Inl e \<Rightarrow> Inl e
      | Inr L \<Rightarrow> gen_new_samples eigvalsh self X_seeds logl_fn logl_th nsteps step_size S
                   (Some L) randn rand) \<and>
   gen_new_samples eigvalsh (self\<lparr>X_live := P\<rparr>) X_seeds logl_fn logl_th nsteps step_size S
       None randn rand =
     gen_new_samples eigvalsh self X_seeds logl_fn logl_th nsteps step_size S None randn rand"
  by (simp add: gen_new_samples_def used_Lchol_def split: sum.splits)

text \<open>
  Claim C3, as stated, fails after the run with three chains, on the batch of nine seeds
  that \<open>generate_constrained_prior_samples\<close> would pass: the factor used is the one of
  the seeds, and the live population has another one (its first entry is the square
  root of \<open>7/160\<close>, not \<open>1/3\<close>).
\<close>

theorem default_factor_from_seeds_counterexample:
  "nested_sampling ex_eig ex_rng3 ex_sampler ex_logl ex_cfg3 = Inr ex_result3 \<and>
   get_constrained_prior_samples ex_draw ex_result3 (Some 9) NegInf
     = Inr (ex_seeds, [0, 0, 0, 0, 1, 1, 1, 1, 1]) \<and>
   used_Lchol ex_eig (ndim ex_result3) ex_seeds None = Inr [[1/3, 0], [- (1/6), 1/2]] \<and>
   used_Lchol ex_eig (ndim ex_result3) ex_seeds None
     \<noteq> calc_Lchol ex_eig (ndim ex_result3) (X_live ex_result3)"
proof -
  have d: "ndim ex_result3 = 2" by (simp add: ex_result3_def ex_sampler_def)
  have u: "used_Lchol ex_eig (ndim ex_result3) ex_seeds None = Inr [[1/3, 0], [- (1/6), 1/2]]"
    by (simp add: used_Lchol_def d ex_seeds_Lchol)
  show ?thesis
    using ex_run3 ex_seeds_drawn u ex_live3_Lchol by (simp add: d)
qed

section \<open>One slice-sampling step\<close>

lemma slice_loop_shape:
  "length bounds = length L \<Longrightarrow> \<forall>row\<in>set L. length row = n \<Longrightarrow>
   length (slice_loop u js bounds L) = length L \<and>
   (\<forall>row\<in>set (slice_loop u js bounds L). length row = n + length js)"
proof (induction js arbitrary: bounds L n)
  case Nil
  then show ?case by simp
next
  case (Cons i js)
  let ?x = "map (\<lambda>(b, (lo, hi)). u i b * (hi - lo) + lo) (enumerate 0 bounds)"
  let ?bounds = "map2 (\<lambda>xb (lo, hi). (if xb < 0 then xb else lo, if xb > 0 then xb else hi)) ?x bounds"
  let ?L = "map2 (\<lambda>row xb. row @ [xb]) L ?x"
  have l1: "length ?bounds = length ?L" using Cons.prems(1) by simp
  have l2: "\<forall>row\<in>set ?L. length row = Suc n"
    using Cons.prems(2) by (auto dest: set_zip_leftD)
  have l3: "length ?L = length L" using Cons.prems(1) by simp
  from Cons.IH[OF l1 l2] l3 show ?case by (simp add: Let_def)
qed

lemma get_slice_sample_points_shape:
  "length (get_slice_sample_points B S u) = B \<and>
   (\<forall>row\<in>set (get_slice_sample_points B S u). length row = S)"
  using slice_loop_shape[of "replicate B (- 1, 1)" "replicate B []" 0 u "[0..<S]"]
  by (simp add: get_slice_sample_points_def)

lemma get_directions_length: "length (get_directions B D t) = B"
  by (simp add: get_directions_def)

lemma proposals_nth:
  assumes "b < length X" "length N = length X" "length L = length X"
  shows "length (proposals X N L Lchol) = length X"
    "proposals X N L Lchol ! b =
       map (\<lambda>l. vadd (X ! b) (matmul_T (smul (N ! b) l) Lchol)) (L ! b)"
  using assms by (simp_all add: proposals_def)

lemma map2_same: "map2 h (map f xs) (map g xs) = map (\<lambda>x. h (f x) (g x)) xs"
  by (induction xs) simp_all

lemma accept_matrix_acceptable:
  "accept_matrix logl_th (map (map logl_fn) pX) (map (map inb) pX)
     = map (map (acceptable inb logl_fn logl_th)) pX"
  by (simp add: accept_matrix_def map2_same acceptable_def[abs_def])

lemma fold_max_bools:
  assumes "\<exists>x\<in>set cs. P x"
  shows "cs \<noteq> [] \<and> Max (set (map (\<lambda>x. bool_int (P x)) cs)) = 1"
proof -
  from assms have ne: "cs \<noteq> []" by auto
  have "Max (set (map (\<lambda>x. bool_int (P x)) cs)) = 1"
  proof (rule Max_eqI)
    show "finite (set (map (\<lambda>x. bool_int (P x)) cs))" by simp
    show "y \<le> 1" if "y \<in> set (map (\<lambda>x. bool_int (P x)) cs)" for y
      using that by (auto simp: bool_int_def)
    show "1 \<in> set (map (\<lambda>x. bool_int (P x)) cs)"
      using assms by (auto simp: bool_int_def image_iff)
  qed
  with ne show ?thesis by simp
qed

lemma argmax_bools:
  assumes "\<exists>x\<in>set cs. P x"
  shows "argmax (map bool_int (map P cs)) = length (takeWhile (\<lambda>x. \<not> P x) cs)"
proof -
  from fold_max_bools[OF assms] have ne: "cs \<noteq> []"
    and mx: "Max (set (map (\<lambda>x. bool_int (P x)) cs)) = 1" by simp_all
  obtain y ys where r: "map (\<lambda>x. bool_int (P x)) cs = y # ys"
    using ne by (cases cs) auto
  have "fold max ys y = 1" using mx unfolding r by (simp only: Max.set_eq_fold)
  then have "argmax (map (\<lambda>x. bool_int (P x)) cs)
      = length (takeWhile (\<lambda>x. x \<noteq> 1) (map (\<lambda>x. bool_int (P x)) cs))"
    unfolding r by (simp add: argmax_def)
  also have "\<dots> = length (takeWhile (\<lambda>x. \<not> P x) cs)"
    by (simp add: takeWhile_map comp_def bool_int_def)
  finally show ?thesis by (simp add: comp_def)
qed

lemma sum_bools_nonneg: "0 \<le> sum_list (map bool_int bs)"
  by (induction bs) (simp_all add: bool_int_def)

lemma sum_bools_pos: "(0 < sum_list (map bool_int (map P cs))) = (\<exists>x\<in>set cs. P x)"
proof (induction cs)
  case Nil
  then show ?case by simp
next
  case (Cons c cs)
  have b: "bool_int True = 1" "bool_int False = 0" by (simp_all add: bool_int_def)
  from sum_bools_nonneg[of "map P cs"] Cons show ?case
    by (cases "P c") (simp_all add: b)
qed

lemma first_true:
  assumes "\<exists>x\<in>set cs. P x"
  defines "j \<equiv> length (takeWhile (\<lambda>x. \<not> P x) cs)"
  shows "j < length cs" "P (cs ! j)" "\<forall>k<j. \<not> P (cs ! k)"
proof -
  from assms(1) obtain x where x: "x \<in> set cs" "\<not> \<not> P x" by auto
  then show 1: "j < length cs" unfolding j_def by (rule takeWhile_stops)
  from nth_length_takeWhile[of "\<lambda>x. \<not> P x" cs] 1 show "P (cs ! j)"
    unfolding j_def by simp
  show "\<forall>k<j. \<not> P (cs ! k)"
    unfolding j_def using takeWhile_before[of _ "\<lambda>x. \<not> P x" cs] by blast
qed

lemma slice_step_chain:
  assumes step: "slice_step inb logl_fn logl_th mss S Lchol B D t u st = Inr st'"
    and len: "length (ch_X st) = B" and b: "b < B"
  defines "cs \<equiv> chain_candidates mss S Lchol B D t u st b"
    and "P \<equiv> acceptable inb logl_fn logl_th"
  shows "length cs = S"
    and "accept_matrix logl_th
           (map (map logl_fn) (proposals (ch_X st) (get_directions B D t)
              (map (map (\<lambda>x. x * mss)) (get_slice_sample_points B S u)) Lchol))
           (map (map inb) (proposals (ch_X st) (get_directions B D t)
              (map (map (\<lambda>x. x * mss)) (get_slice_sample_points B S u)) Lchol)) ! b
         = map P cs"
    and "ch_X st' ! b =
           (if \<exists>x\<in>set cs. P x then cs ! length (takeWhile (\<lambda>x. \<not> P x) cs) else ch_X st ! b)"
    and "ch_logl st' ! b =
           (if \<exists>x\<in>set cs. P x then Some (logl_fn (cs ! length (takeWhile (\<lambda>x. \<not> P x) cs)))
            else ch_logl st ! b)"
    and "ch_C st' ! b = (if \<exists>x\<in>set cs. P x then ch_C st ! b + 1 else ch_C st ! b)"
proof -
  let ?N = "get_directions B D t"
  let ?L = "map (map (\<lambda>x. x * mss)) (get_slice_sample_points B S u)"
  let ?pX = "proposals (ch_X st) ?N ?L Lchol"
  let ?acc = "accept_matrix logl_th (map (map logl_fn) ?pX) (map (map inb) ?pX)"
  have lN: "length ?N = length (ch_X st)" using len by (simp add: get_directions_length)
  have lL: "length ?L = length (ch_X st)"
    using len get_slice_sample_points_shape[of B S u] by simp
  have bX: "b < length (ch_X st)" using b len by simp
  have lpX: "length ?pX = B" using proposals_nth(1)[OF bX lN lL] len by simp
  have cs: "cs = ?pX ! b" by (simp add: cs_def chain_candidates_def)
  have "length (?pX ! b) = length (?L ! b)"
    using proposals_nth(2)[OF bX lN lL] by simp
  also have "\<dots> = length (get_slice_sample_points B S u ! b)"
    using b get_slice_sample_points_shape[of B S u] by simp
  also have "\<dots> = S"
    using b get_slice_sample_points_shape[of B S u] by (simp add: nth_mem)
  finally show lcs: "length cs = S" by (simp add: cs)
  have acc: "?acc = map (map P) ?pX" by (simp add: accept_matrix_acceptable P_def)
  show accb: "?acc ! b = map P cs" using b lpX by (simp add: acc cs)
  from step have S0: "S \<noteq> 0" and B0: "B \<noteq> 0"
    by (auto simp: slice_step_def Let_def split: if_splits)
  let ?idx = "map (\<lambda>row. argmax (map bool_int row)) ?acc"
  let ?any = "map (\<lambda>row. sum_list (map bool_int row) > 0) ?acc"
  let ?nX = "map (\<lambda>i. ?pX ! i ! (?idx ! i)) [0..<B]"
  let ?sel = "map (\<lambda>i. map (map logl_fn) ?pX ! i ! (?idx ! i)) [0..<B]"
  from step S0 B0 have "Inr st' = (Inr
      \<lparr>ch_X = map (\<lambda>i. if ?any ! i then ?nX ! i else ch_X st ! i) [0..<B],
       ch_logl = map (\<lambda>i. if ?any ! i then Some (?sel ! i) else ch_logl st ! i) [0..<B],
       ch_C = map (\<lambda>i. if ?any ! i then ch_C st ! i + 1 else ch_C st ! i) [0..<B]\<rparr>
      :: error + chains)"
    unfolding slice_step_def Let_def by (simp only: if_False)
  then have st': "st' =
      \<lparr>ch_X = map (\<lambda>i. if ?any ! i then ?nX ! i else ch_X st ! i) [0..<B],
       ch_logl = map (\<lambda>i. if ?any ! i then Some (?sel ! i) else ch_logl st ! i) [0..<B],
       ch_C = map (\<lambda>i. if ?any ! i then ch_C st ! i + 1 else ch_C st ! i) [0..<B]\<rparr>"
    by (simp only: sum.inject)
  have nXb: "?nX ! b = ?pX ! b ! (?idx ! b)" and selb: "?sel ! b = map (map logl_fn) ?pX ! b ! (?idx ! b)"
    using b by (simp_all only: nth_map length_upt minus_nat.diff_0 nth_upt add_0)
  have Xb: "ch_X st' ! b = (if ?any ! b then ?pX ! b ! (?idx ! b) else ch_X st ! b)"
    and lb: "ch_logl st' ! b = (if ?any ! b then Some (map (map logl_fn) ?pX ! b ! (?idx ! b))
                                else ch_logl st ! b)"
    and Cb: "ch_C st' ! b = (if ?any ! b then ch_C st ! b + 1 else ch_C st ! b)"
    unfolding st' nXb[symmetric] selb[symmetric] using b by simp_all
  have lacc: "b < length ?acc" using b lpX by (simp add: acc)
  have any: "?any ! b = (\<exists>x\<in>set cs. P x)"
    using lacc accb by (simp add: sum_bools_pos del: map_map)
  have idx: "?idx ! b = length (takeWhile (\<lambda>x. \<not> P x) cs)" if "\<exists>x\<in>set cs. P x"
    using lacc accb argmax_bools[OF that] by (simp del: map_map)
  have lg: "map (map logl_fn) ?pX ! b ! j = logl_fn (cs ! j)" if "j < length cs" for j
    using that b lpX by (simp add: cs)
  show "ch_X st' ! b =
           (if \<exists>x\<in>set cs. P x then cs ! length (takeWhile (\<lambda>x. \<not> P x) cs) else ch_X st ! b)"
    unfolding Xb any using idx by (simp add: cs)
  show "ch_logl st' ! b =
           (if \<exists>x\<in>set cs. P x then Some (logl_fn (cs ! length (takeWhile (\<lambda>x. \<not> P x) cs)))
            else ch_logl st ! b)"
  proof (cases "\<exists>x\<in>set cs. P x")
    case True
    from first_true(1)[OF True] have "length (takeWhile (\<lambda>x. \<not> P x) cs) < length cs" .
    from lg[OF this] show ?thesis unfolding lb any using idx[OF True] True by simp
  next
    case False
    then show ?thesis unfolding lb any by simp
  qed
  show "ch_C st' ! b = (if \<exists>x\<in>set cs. P x then ch_C st ! b + 1 else ch_C st ! b)"
    unfolding Cb any by simp
qed

lemma slice_step_length:
  assumes "slice_step inb logl_fn logl_th mss S Lchol B D t u st = Inr st'"
  shows "length (ch_X st') = B \<and> length (ch_logl st') = B \<and> length (ch_C st') = B"
  using assms by (auto simp: slice_step_def Let_def split: if_splits)

text \<open>
  Claim C7. In one slice-sampling step over \<open>B\<close> chains, for every chain \<open>b\<close>: the
  chain has \<open>S\<close> candidates; the entry of the acceptance matrix for a candidate says
  that its log-likelihood exceeds the threshold and that it is within bounds; if some
  candidate is acceptable, the chain moves to the first acceptable one in the order
  generated, takes its log-likelihood and counts one more step; if none is, position,
  log-likelihood and counter of the chain are unchanged. The working state has one
  position per chain, as it has at the start of \<open>_gen_new_samples\<close> and after every
  step (\<open>slice_step_length\<close>).
\<close>

theorem slice_step_first_acceptable:
  assumes "slice_step inb logl_fn logl_th mss S Lchol B D t u st = Inr st'"
    and "length (ch_X st) = B" and "b < B"
  shows "length (chain_candidates mss S Lchol B D t u st b) = S \<and>
         (\<forall>j<S. accept_matrix logl_th
             (map (map logl_fn) (proposals (ch_X st) (get_directions B D t)
                (map (map (\<lambda>x. x * mss)) (get_slice_sample_points B S u)) Lchol))
             (map (map inb) (proposals (ch_X st) (get_directions B D t)
                (map (map (\<lambda>x. x * mss)) (get_slice_sample_points B S u)) Lchol)) ! b ! j
           = (xless logl_th (Finite (logl_fn (chain_candidates mss S Lchol B D t u st b ! j))) \<and>
              inb (chain_candidates mss S Lchol B D t u st b ! j))) \<and>
         ((\<exists>j<S. acceptable inb logl_fn logl_th (chain_candidates mss S Lchol B D t u st b ! j)) \<longrightarrow>
            (\<exists>j<S. acceptable inb logl_fn logl_th (chain_candidates mss S Lchol B D t u st b ! j) \<and>
               (\<forall>k<j. \<not> acceptable inb logl_fn logl_th
                          (chain_candidates mss S Lchol B D t u st b ! k)) \<and>
               ch_X st' ! b = chain_candidates mss S Lchol B D t u st b ! j \<and>
               ch_logl st' ! b = Some (logl_fn (chain_candidates mss S Lchol B D t u st b ! j)) \<and>
               ch_C st' ! b = ch_C st ! b + 1)) \<and>
         ((\<forall>j<S. \<not> acceptable inb logl_fn logl_th (chain_candidates mss S Lchol B D t u st b ! j)) \<longrightarrow>
            ch_X st' ! b = ch_X st ! b \<and> ch_logl st' ! b = ch_logl st ! b \<and>
            ch_C st' ! b = ch_C st ! b)"
proof -
  let ?cs = "chain_candidates mss S Lchol B D t u st b"
  let ?P = "acceptable inb logl_fn logl_th"
  note c = slice_step_chain[OF assms]
  have ex: "(\<exists>x\<in>set ?cs. ?P x) = (\<exists>j<S. ?P (?cs ! j))"
    using c(1) by (metis in_set_conv_nth)
  have 1: "\<forall>j<S. accept_matrix logl_th
             (map (map logl_fn) (proposals (ch_X st) (get_directions B D t)
                (map (map (\<lambda>x. x * mss)) (get_slice_sample_points B S u)) Lchol))
             (map (map inb) (proposals (ch_X st) (get_directions B D t)
                (map (map (\<lambda>x. x * mss)) (get_slice_sample_points B S u)) Lchol)) ! b ! j
           = (xless logl_th (Finite (logl_fn (?cs ! j))) \<and> inb (?cs ! j))"
    using c(1) by (simp add: c(2) acceptable_def)
  have 2: "\<exists>j<S. ?P (?cs ! j) \<and> (\<forall>k<j. \<not> ?P (?cs ! k)) \<and>
               ch_X st' ! b = ?cs ! j \<and> ch_logl st' ! b = Some (logl_fn (?cs ! j)) \<and>
               ch_C st' ! b = ch_C st ! b + 1"
    if "\<exists>j<S. ?P (?cs ! j)"
  proof -
    from that ex have e: "\<exists>x\<in>set ?cs. ?P x" by simp
    let ?j = "length (takeWhile (\<lambda>x. \<not> ?P x) ?cs)"
    from first_true[OF e] c(1) have "?j < S" "?P (?cs ! ?j)" "\<forall>k<?j. \<not> ?P (?cs ! k)"
      by simp_all
    moreover from e c(3,4,5) have "ch_X st' ! b = ?cs ! ?j"
      "ch_logl st' ! b = Some (logl_fn (?cs ! ?j))" "ch_C st' ! b = ch_C st ! b + 1"
      by simp_all
    ultimately show ?thesis by blast
  qed
  have 3: "ch_X st' ! b = ch_X st ! b \<and> ch_logl st' ! b = ch_logl st ! b \<and>
            ch_C st' ! b = ch_C st ! b"
    if "\<forall>j<S. \<not> ?P (?cs ! j)"
  proof -
    from that ex have "\<not> (\<exists>x\<in>set ?cs. ?P x)" by simp
    with c(3,4,5) show ?thesis by simp
  qed
  from c(1) 1 2 3 show ?thesis by blast
qed

lemma ex_points: "get_slice_sample_points 2 2 ex_u = [[- (1/2), 1/2], [- (1/2), - (1/4)]]"
  by (simp add: get_slice_sample_points_def ex_u_def Let_def eval_nat_numeral)

lemma ex_candidates:
  "chain_candidates 1 2 [[1/2, 0], [0, 1/2]] 2 2 ex_t ex_u ex_chains 0 = [[1/4, 1/2], [3/4, 1/2]]"
  "chain_candidates 1 2 [[1/2, 0], [0, 1/2]] 2 2 ex_t ex_u ex_chains 1 = [[1/2, 1/4], [1/2, 3/8]]"
  by (simp_all add: chain_candidates_def ex_points proposals_def get_directions_def ex_t_def
      ex_chains_def vadd_def matmul_T_def smul_def dot_def Let_def upt_0_2)

lemma ex_slice_step:
  "slice_step inbound_unitcube ex_logl (Finite 1) 1 2 [[1/2, 0], [0, 1/2]] 2 2 ex_t ex_u
     ex_chains = Inr ex_chains'"
  by (simp add: slice_step_def ex_points proposals_def get_directions_def ex_t_def
      ex_chains_def ex_chains'_def accept_matrix_def vadd_def matmul_T_def smul_def dot_def
      ex_logl_def inbound_unitcube_def argmax_def bool_int_def Let_def upt_0_2)

theorem slice_step_first_acceptable_witness:
  "slice_step inbound_unitcube ex_logl (Finite 1) 1 2 [[1/2, 0], [0, 1/2]] 2 2 ex_t ex_u
     ex_chains = Inr ex_chains' \<and>
   length (ch_X ex_chains) = 2 \<and>
   chain_candidates 1 2 [[1/2, 0], [0, 1/2]] 2 2 ex_t ex_u ex_chains 0
     = [[1/4, 1/2], [3/4, 1/2]] \<and>
   \<not> acceptable inbound_unitcube ex_logl (Finite 1) [1/4, 1/2] \<and>
   acceptable inbound_unitcube ex_logl (Finite 1) [3/4, 1/2] \<and>
   ch_X ex_chains' ! 0 = [3/4, 1/2] \<and> ch_logl ex_chains' ! 0 = Some (5/4) \<and>
   ch_C ex_chains' ! 0 = 1 \<and>
   chain_candidates 1 2 [[1/2, 0], [0, 1/2]] 2 2 ex_t ex_u ex_chains 1
     = [[1/2, 1/4], [1/2, 3/8]] \<and>
   \<not> acceptable inbound_unitcube ex_logl (Finite 1) [1/2, 1/4] \<and>
   \<not> acceptable inbound_unitcube ex_logl (Finite 1) [1/2, 3/8] \<and>
   ch_X ex_chains' ! 1 = [1/2, 1/2] \<and> ch_logl ex_chains' ! 1 = None \<and> ch_C ex_chains' ! 1 = 0"
proof -
  let ?P = "acceptable inbound_unitcube ex_logl (Finite 1)"
  have len: "length (ch_X ex_chains) = 2" by (simp add: ex_chains_def)
  have a: "\<not> ?P [1/4, 1/2]" "?P [3/4, 1/2]" "\<not> ?P [1/2, 1/4]" "\<not> ?P [1/2, 3/8]"
    by (simp_all add: acceptable_def ex_logl_def inbound_unitcube_def)
  have old: "ch_X ex_chains ! 1 = [1/2, 1/2]" "ch_logl ex_chains ! 1 = None"
    "ch_C ex_chains ! 1 = 0" "ch_C ex_chains ! 0 = 0"
    by (simp_all add: ex_chains_def)
  have b0: "(0::nat) < 2" and b1: "(1::nat) < 2" by simp_all
  note first = slice_step_first_acceptable[OF ex_slice_step len b0, unfolded ex_candidates]
  note second = slice_step_first_acceptable[OF ex_slice_step len b1, unfolded ex_candidates]
  have e: "\<exists>j<2. ?P ([[1/4, 1/2], [3/4, 1/2]] ! j)"
    using a(2) by (intro exI[of _ 1]) simp
  from first e obtain j where j: "j < 2" "?P ([[1/4, 1/2], [3/4, 1/2]] ! j)"
    "ch_X ex_chains' ! 0 = [[1/4, 1/2], [3/4, 1/2]] ! j"
    "ch_logl ex_chains' ! 0 = Some (ex_logl ([[1/4, 1/2], [3/4, 1/2]] ! j))"
    "ch_C ex_chains' ! 0 = ch_C ex_chains ! 0 + 1"
    by blast
  from j(1,2) a(1) have "j = 1" by (cases j) auto
  with j have r0: "ch_X ex_chains' ! 0 = [3/4, 1/2]" "ch_logl ex_chains' ! 0 = Some (5/4)"
    "ch_C ex_chains' ! 0 = 1"
    using old by (simp_all add: ex_logl_def)
  have n: "\<forall>j<2. \<not> ?P ([[1/2, 1/4], [1/2, 3/8]] ! j)"
    using a(3,4) by (auto simp: less_Suc_eq eval_nat_numeral)
  from second n have r1: "ch_X ex_chains' ! 1 = [1/2, 1/2]" "ch_logl ex_chains' ! 1 = None"
    "ch_C ex_chains' ! 1 = 0"
    using old by simp_all
  show ?thesis using ex_slice_step len ex_candidates a r0 r1 by simp
qed

section \<open>Quadratic forms and the trailing block\<close>


lemma dot_Nil [simp]: "dot [] y = 0" "dot x [] = 0"
  by (simp_all add: dot_def)

lemma dot_Cons [simp]: "dot (a # x) (b # y) = a * b + dot x y"
  by (simp add: dot_def)

lemma dot_commute: "dot x y = dot y x"
proof (induction x arbitrary: y)
  case Nil
  then show ?case by simp
next
  case (Cons a x)
  then show ?case by (cases y) simp_all
qed

lemma dot_zeros [simp]: "dot (replicate n 0) y = 0" "dot y (replicate n 0) = 0"
proof -
  show "dot (replicate n 0) y = 0"
  proof (induction n arbitrary: y)
    case 0
    then show ?case by simp
  next
    case (Suc n)
    then show ?case by (cases y) simp_all
  qed
  then show "dot y (replicate n 0) = 0" by (simp add: dot_commute[of y])
qed








lemma length_rank1_update [simp]: "length (rank1_update B col) = min (length B) (length col)"
  by (simp add: rank1_update_def)








section \<open>The factorisation succeeds on positive-definite matrices\<close>

lemma sym_rec_length: "sym_rec (r # rows) \<Longrightarrow> \<forall>row\<in>set rows. row \<noteq> []"
  by auto











section \<open>The factor is lower-triangular with the right product\<close>




section \<open>The repair path of the whitener\<close>

















end
